theory Spec2Isabelle
  imports Complex_Main "HOL-Library.Multiset"
begin

unbundle bit_operations_syntax

text \<open>
  The device functions of rocSPARSE's \<open>csrmm\<close> (sparse CSR matrix times dense matrix,
  \<open>C = alpha * op(A) * op(B) + beta * C\<close>) from \<open>library/src/level3/csrmm_device.h\<close>:
  the scale kernel, the row-parallel kernels nn and nt, and the transposed kernels tn and
  tt that accumulate atomically. Each device function is embedded as a function of one
  thread on the contents of C and a trace of the accesses to global memory; a launch runs
  it for every thread of the grid. The properties of the kernels are proved on closed
  forms of these functions.
\<close>

section \<open>Data model\<close>

text \<open>
  Modelled from the spec: the enumerations \<open>rocsparse_operation\<close>, \<open>rocsparse_order\<close> and
  \<open>rocsparse_index_base\<close> are declared in a header that \<open>csrmm_device.h\<close> only includes
  (transpose mode none / transpose / conjugate-transpose; order flag row-major or
  column-major; index base 0 or 1).
\<close>

datatype rocsparse_operation =
    rocsparse_operation_none
  | rocsparse_operation_transpose
  | rocsparse_operation_conjugate_transpose

datatype rocsparse_order = rocsparse_order_row | rocsparse_order_column

datatype rocsparse_index_base = rocsparse_index_base_zero | rocsparse_index_base_one

fun base_of :: "rocsparse_index_base \<Rightarrow> int" where
  "base_of rocsparse_index_base_zero = 0"
| "base_of rocsparse_index_base_one = 1"

text \<open>
  The element type \<open>T\<close> of the kernels (float, double and their complex pairs) is taken
  as \<open>complex\<close> with exact arithmetic: rounding is not modelled, a real element is a
  complex number with imaginary part zero. Every value of this type is finite; the
  infinities and NaN of a floating-point type are the subject of the section on the
  nn kernel at a floating-point element type. The index types \<open>I\<close> and \<open>J\<close> are taken as
  unbounded \<open>int\<close>: the host validates the shapes, and no claim is about wrap-around.
  A device buffer is a function from element offsets to values.
\<close>

type_synonym 'a buf = "int \<Rightarrow> 'a"

text \<open>
  Modelled from the spec: \<open>rocsparse_conj\<close>, \<open>rocsparse_fma\<close> and \<open>rocsparse_ldg\<close> come from
  \<open>common.h\<close>, which is not part of the sources at hand (complex conjugation, fused
  multiply-add \<open>a * b + c\<close>, and a plain read-only load).
\<close>

definition rocsparse_conj :: "complex \<Rightarrow> complex" where
  "rocsparse_conj x = cnj x"

definition rocsparse_fma :: "complex \<Rightarrow> complex \<Rightarrow> complex \<Rightarrow> complex" where
  "rocsparse_fma a b c = a * b + c"

text \<open>Every access of a kernel to global memory is recorded, buffer by buffer.\<close>

datatype access =
    Read_row_ptr int
  | Read_col_ind int
  | Read_val int
  | Read_B int
  | Read_C int
  | Write_C int
  | AtomicAdd_C int

text \<open>
  The state a kernel works on: the contents of the mutable buffer and the trace, for an
  element type \<open>'T\<close>; \<open>gstate\<close> is the state at the element type \<open>complex\<close>.
\<close>

type_synonym 'T state = "'T buf \<times> access list"

type_synonym gstate = "complex state"

definition store_C :: "int \<Rightarrow> 'T \<Rightarrow> 'T state \<Rightarrow> 'T state" where
  "store_C a v s = ((fst s)(a := v), snd s @ [Write_C a])"

definition load_store_C :: "int \<Rightarrow> ('T \<Rightarrow> 'T) \<Rightarrow> 'T state \<Rightarrow> 'T state" where
  "load_store_C a f s = ((fst s)(a := f (fst s a)), snd s @ [Read_C a, Write_C a])"

definition atomicAdd :: "int \<Rightarrow> complex \<Rightarrow> gstate \<Rightarrow> gstate" where
  "atomicAdd a v s = ((fst s)(a := fst s a + v), snd s @ [AtomicAdd_C a])"

section \<open>Loops and launches\<close>

text \<open>
  \<open>for (x = i; x < hi && cond(x); x += step) body\<close>. A loop whose counter does not
  advance never leaves: the result is \<open>None\<close>.
\<close>

function for_loop ::
  "int \<Rightarrow> int \<Rightarrow> (int \<Rightarrow> bool) \<Rightarrow> int \<Rightarrow> (int \<Rightarrow> 's \<Rightarrow> 's option) \<Rightarrow> 's \<Rightarrow> 's option" where
  "for_loop i hi cond step body s =
     (if i < hi \<and> cond i
      then (if step \<le> 0 then None
            else (case body i s of
                    None \<Rightarrow> None
                  | Some s' \<Rightarrow> for_loop (i + step) hi cond step body s'))
      else Some s)"
  by pat_completeness auto
termination
  by (relation "measure (\<lambda>(i, hi, cond, step, body, s). nat (hi - i))") auto

declare for_loop.simps [simp del]

text \<open>
  Modelled from the spec: the launch of a kernel is host code that is not part of the
  sources at hand. A launch is a grid of blocks of threads; every thread runs the device
  function with its own indices.
\<close>

record launch =
  hipGridDim_x :: int
  hipGridDim_y :: int
  hipBlockDim_x :: int
  hipBlockDim_y :: int

record thread_id =
  hipBlockIdx_x :: int
  hipBlockIdx_y :: int
  hipThreadIdx_x :: int
  hipThreadIdx_y :: int

definition grid_threads :: "launch \<Rightarrow> thread_id list" where
  "grid_threads l =
     [\<lparr>hipBlockIdx_x = bx, hipBlockIdx_y = by, hipThreadIdx_x = tx, hipThreadIdx_y = ty\<rparr>.
        by \<leftarrow> [0 .. hipGridDim_y l - 1], bx \<leftarrow> [0 .. hipGridDim_x l - 1],
        ty \<leftarrow> [0 .. hipBlockDim_y l - 1], tx \<leftarrow> [0 .. hipBlockDim_x l - 1]]"

text \<open>
  Modelled from the spec: the execution of a launch. The threads are run one after the
  other, each to its end; a barrier is modelled where a tile is read (slot \<open>i\<close> of a
  tile holds what the lane with \<open>lid = i\<close> stores before the barrier). For the kernels
  here the fixed order gives the result of every schedule: the row-parallel kernels
  write each output element from one thread only, and the transposed kernels change the
  output by atomic additions only, which commute.
\<close>

definition run_grid :: "launch \<Rightarrow> (thread_id \<Rightarrow> 's \<Rightarrow> 's option) \<Rightarrow> 's \<Rightarrow> 's option" where
  "run_grid l thr s = fold (\<lambda>t r. Option.bind r (thr t)) (grid_threads l) (Some s)"

section \<open>The scale kernel\<close>

text \<open>
  \<open>csrmm_scale_device\<close>, lines 240 to 260 of \<open>csrmm_device.h\<close>: a thread outside the
  \<open>m\<close> by \<open>n\<close> index space returns at once, every other thread multiplies its element by
  \<open>beta\<close>. \<open>csrmm_scale\<close> is the launch of the device function over a grid (the wrapper
  kernel and the launch are host code); the same holds for \<open>csrmmnn\<close>, \<open>csrmmnt\<close>,
  \<open>csrmmtn\<close> and \<open>csrmmtt\<close> below.
\<close>

definition csrmm_scale_device ::
  "launch \<Rightarrow> thread_id \<Rightarrow> int \<Rightarrow> int \<Rightarrow> complex \<Rightarrow> int \<Rightarrow> rocsparse_order \<Rightarrow> gstate \<Rightarrow> gstate option" where
  "csrmm_scale_device l t m n beta ld order s =
     (let gidx = hipBlockIdx_x t * hipBlockDim_x l + hipThreadIdx_x t;
          gidy = hipBlockIdx_y t * hipBlockDim_y l + hipThreadIdx_y t
      in if gidx \<ge> m \<or> gidy \<ge> n then Some s
         else if order = rocsparse_order_column
         then Some (load_store_C (gidx + ld * gidy) (\<lambda>c. c * beta) s)
         else Some (load_store_C (gidy + ld * gidx) (\<lambda>c. c * beta) s))"

definition csrmm_scale ::
  "launch \<Rightarrow> int \<Rightarrow> int \<Rightarrow> complex \<Rightarrow> int \<Rightarrow> rocsparse_order \<Rightarrow> gstate \<Rightarrow> gstate option" where
  "csrmm_scale l m n beta ld order s =
     run_grid l (\<lambda>t. csrmm_scale_device l t m n beta ld order) s"

section \<open>Arguments of the compute kernels\<close>

text \<open>
  The parameters shared by the four compute kernels, under the names of the source
  (\<open>M\<close>, \<open>N\<close>, \<open>K\<close> and \<open>B\<close> are \<open>dim_M\<close>, \<open>dim_N\<close>, \<open>dim_K\<close> and \<open>buf_B\<close>).
  The template constants \<open>BLOCKSIZE\<close> and \<open>WF_SIZE\<close> are passed in front. The buffer
  \<open>C\<close> is the state. The element type \<open>T\<close> is the parameter \<open>'T\<close> of the record;
  \<open>csrmm_args\<close> is the record at the element type \<open>complex\<close>.
\<close>

record 'T csrmm_arguments =
  trans_A :: rocsparse_operation
  trans_B :: rocsparse_operation
  dim_M :: int
  dim_N :: int
  dim_K :: int
  nnz :: int
  alpha :: 'T
  csr_row_ptr :: "int buf"
  csr_col_ind :: "int buf"
  csr_val :: "'T buf"
  buf_B :: "'T buf"
  ldb :: int
  beta :: 'T
  ldc :: int
  order :: rocsparse_order
  idx_base :: rocsparse_index_base

type_synonym csrmm_args = "complex csrmm_arguments"

text \<open>
  What a lane stores into its slot of \<open>shared_val\<close> (lines 77 to 85 and 182 to 190), and
  the global reads of the lane that fills the slots for index \<open>k\<close>. The local \<open>sum\<close>
  of the source is \<open>sumv\<close> here.
\<close>

definition load_shared_val :: "csrmm_args \<Rightarrow> int \<Rightarrow> int \<Rightarrow> complex" where
  "load_shared_val a row_end k =
     (if trans_A a = rocsparse_operation_conjugate_transpose
      then (if k < row_end then rocsparse_conj (csr_val a k) else 0)
      else (if k < row_end then csr_val a k else 0))"

definition load_trace :: "int \<Rightarrow> int \<Rightarrow> access list" where
  "load_trace row_end k = (if k < row_end then [Read_col_ind k, Read_val k] else [])"

text \<open>The final store of the row-parallel kernels (lines 105 to 126 and 213 to 234).\<close>

definition final_store :: "csrmm_args \<Rightarrow> int \<Rightarrow> int \<Rightarrow> complex \<Rightarrow> gstate \<Rightarrow> gstate" where
  "final_store a row col sumv s =
     (if beta a = 0
      then (if order a = rocsparse_order_column
            then store_C (row + col * ldc a) (alpha a * sumv) s
            else store_C (row * ldc a + col) (alpha a * sumv) s)
      else (if order a = rocsparse_order_column
            then load_store_C (row + col * ldc a)
                   (\<lambda>c. rocsparse_fma (beta a) c (alpha a * sumv)) s
            else load_store_C (row * ldc a + col)
                   (\<lambda>c. rocsparse_fma (beta a) c (alpha a * sumv)) s))"

section \<open>The row-parallel kernel nn\<close>

text \<open>
  The tile \<open>shared_col[wid]\<close>, \<open>shared_val[wid]\<close> of a wavefront is filled between the two
  barriers: slot \<open>i\<close> by the lane with \<open>lid = i\<close>, whose \<open>k\<close> is \<open>j + i\<close>. After the
  second barrier every lane scans the whole tile.
\<close>

definition nn_shared_col :: "'T csrmm_arguments \<Rightarrow> int \<Rightarrow> int \<Rightarrow> int" where
  "nn_shared_col a row_end k =
     (if k < row_end then csr_col_ind a k - base_of (idx_base a) else 0)"

definition nn_scan_step ::
  "csrmm_args \<Rightarrow> (int \<Rightarrow> int) \<Rightarrow> (int \<Rightarrow> complex) \<Rightarrow> int \<Rightarrow> int
     \<Rightarrow> complex \<times> access list \<Rightarrow> complex \<times> access list" where
  "nn_scan_step a shared_col shared_val colB i s =
     (if trans_B a = rocsparse_operation_conjugate_transpose
      then (rocsparse_fma (shared_val i) (rocsparse_conj (buf_B a (shared_col i + colB))) (fst s),
            snd s @ [Read_B (shared_col i + colB)])
      else (rocsparse_fma (shared_val i) (buf_B a (shared_col i + colB)) (fst s),
            snd s @ [Read_B (shared_col i + colB)]))"

definition nn_tile ::
  "int \<Rightarrow> csrmm_args \<Rightarrow> int \<Rightarrow> int \<Rightarrow> int \<Rightarrow> int \<Rightarrow> int
     \<Rightarrow> complex \<times> access list \<Rightarrow> (complex \<times> access list) option" where
  "nn_tile WF_SIZE a lid col colB row_end j s =
     (let k = j + lid;
          shared_col = (\<lambda>i. nn_shared_col a row_end (j + i));
          shared_val = (\<lambda>i. load_shared_val a row_end (j + i));
          s1 = (fst s, snd s @ load_trace row_end k)
      in for_loop 0 WF_SIZE (\<lambda>i. col < dim_N a) 1
           (\<lambda>i s'. Some (nn_scan_step a shared_col shared_val colB i s')) s1)"

definition nn_row ::
  "int \<Rightarrow> csrmm_args \<Rightarrow> int \<Rightarrow> int \<Rightarrow> int \<Rightarrow> int \<Rightarrow> gstate \<Rightarrow> gstate option" where
  "nn_row WF_SIZE a lid col colB row s =
     (let row_start = csr_row_ptr a row - base_of (idx_base a);
          row_end = csr_row_ptr a (row + 1) - base_of (idx_base a);
          log1 = snd s @ [Read_row_ptr row, Read_row_ptr (row + 1)]
      in case for_loop row_start row_end (\<lambda>j. True) WF_SIZE
                (nn_tile WF_SIZE a lid col colB row_end) (0, log1) of
           None \<Rightarrow> None
         | Some r \<Rightarrow>
             Some (if col < dim_N a then final_store a row col (fst r) (fst s, snd r)
                   else (fst s, snd r)))"

text \<open>
  \<open>WF_SIZE = 0\<close> makes \<open>gid / WF_SIZE\<close> a division by zero: no result. The indices of a
  thread are not negative, so that \<open>/\<close> is \<open>div\<close>.
\<close>

definition csrmmnn_general_device ::
  "int \<Rightarrow> int \<Rightarrow> launch \<Rightarrow> thread_id \<Rightarrow> csrmm_args \<Rightarrow> gstate \<Rightarrow> gstate option" where
  "csrmmnn_general_device BLOCKSIZE WF_SIZE l t a s =
     (if WF_SIZE = 0 then None
      else
        (let tid = hipThreadIdx_x t;
             gid = hipBlockIdx_x t * BLOCKSIZE + tid;
             lid = gid AND (WF_SIZE - 1);
             nwf = hipGridDim_x l * BLOCKSIZE div WF_SIZE;
             col = lid + hipBlockIdx_y t * WF_SIZE;
             colB = col * ldb a
         in for_loop (gid div WF_SIZE) (dim_M a) (\<lambda>row. True) nwf
              (nn_row WF_SIZE a lid col colB) s))"

definition csrmmnn ::
  "int \<Rightarrow> int \<Rightarrow> launch \<Rightarrow> csrmm_args \<Rightarrow> gstate \<Rightarrow> gstate option" where
  "csrmmnn BLOCKSIZE WF_SIZE l a s =
     run_grid l (\<lambda>t. csrmmnn_general_device BLOCKSIZE WF_SIZE l t a) s"

section \<open>The column-tiled row-parallel kernel nt\<close>

definition nt_shared_col :: "csrmm_args \<Rightarrow> int \<Rightarrow> int \<Rightarrow> int" where
  "nt_shared_col a row_end k =
     (if k < row_end then ldb a * (csr_col_ind a k - base_of (idx_base a)) else 0)"

definition nt_scan_step ::
  "csrmm_args \<Rightarrow> (int \<Rightarrow> int) \<Rightarrow> (int \<Rightarrow> complex) \<Rightarrow> int \<Rightarrow> int \<Rightarrow> int
     \<Rightarrow> complex \<times> access list \<Rightarrow> complex \<times> access list" where
  "nt_scan_step a shared_col shared_val col ncol i s =
     (if trans_B a = rocsparse_operation_conjugate_transpose
      then (let val_B = (if col < ncol then buf_B a (col + shared_col i) else 0)
            in (rocsparse_fma (shared_val i) (rocsparse_conj val_B) (fst s),
                snd s @ (if col < ncol then [Read_B (col + shared_col i)] else [])))
      else (let val_B = (if col < ncol then buf_B a (col + shared_col i) else 0)
            in (rocsparse_fma (shared_val i) val_B (fst s),
                snd s @ (if col < ncol then [Read_B (col + shared_col i)] else []))))"

definition nt_tile ::
  "int \<Rightarrow> csrmm_args \<Rightarrow> int \<Rightarrow> int \<Rightarrow> int \<Rightarrow> int \<Rightarrow> int
     \<Rightarrow> complex \<times> access list \<Rightarrow> (complex \<times> access list) option" where
  "nt_tile WF_SIZE a lid col ncol row_end j s =
     (let k = j + lid;
          shared_col = (\<lambda>i. nt_shared_col a row_end (j + i));
          shared_val = (\<lambda>i. load_shared_val a row_end (j + i));
          s1 = (fst s, snd s @ load_trace row_end k)
      in for_loop 0 WF_SIZE (\<lambda>i. True) 1
           (\<lambda>i s'. Some (nt_scan_step a shared_col shared_val col ncol i s')) s1)"

definition nt_col_tile ::
  "int \<Rightarrow> csrmm_args \<Rightarrow> int \<Rightarrow> int \<Rightarrow> int \<Rightarrow> int \<Rightarrow> int \<Rightarrow> int \<Rightarrow> gstate \<Rightarrow> gstate option" where
  "nt_col_tile WF_SIZE a lid ncol row row_start row_end l s =
     (let col = l + lid
      in case for_loop row_start row_end (\<lambda>j. True) WF_SIZE
                (nt_tile WF_SIZE a lid col ncol row_end) (0, snd s) of
           None \<Rightarrow> None
         | Some r \<Rightarrow>
             Some (if col < ncol then final_store a row col (fst r) (fst s, snd r)
                   else (fst s, snd r)))"

definition csrmmnt_general_device ::
  "int \<Rightarrow> int \<Rightarrow> launch \<Rightarrow> thread_id \<Rightarrow> int \<Rightarrow> int \<Rightarrow> csrmm_args \<Rightarrow> gstate \<Rightarrow> gstate option" where
  "csrmmnt_general_device BLOCKSIZE WF_SIZE l t offset ncol a s =
     (if WF_SIZE = 0 then None
      else
        (let tid = hipThreadIdx_x t;
             gid = hipBlockIdx_x t * BLOCKSIZE + tid;
             row = gid div WF_SIZE;
             lid = tid AND (WF_SIZE - 1)
         in if row \<ge> dim_M a then Some s
            else
              (let row_start = csr_row_ptr a row - base_of (idx_base a);
                   row_end = csr_row_ptr a (row + 1) - base_of (idx_base a);
                   s1 = (fst s, snd s @ [Read_row_ptr row, Read_row_ptr (row + 1)])
               in for_loop offset ncol (\<lambda>l. True) WF_SIZE
                    (nt_col_tile WF_SIZE a lid ncol row row_start row_end) s1)))"

definition csrmmnt ::
  "int \<Rightarrow> int \<Rightarrow> launch \<Rightarrow> int \<Rightarrow> int \<Rightarrow> csrmm_args \<Rightarrow> gstate \<Rightarrow> gstate option" where
  "csrmmnt BLOCKSIZE WF_SIZE l offset ncol a s =
     run_grid l (\<lambda>t. csrmmnt_general_device BLOCKSIZE WF_SIZE l t offset ncol a) s"

section \<open>The transposed kernels tn and tt\<close>

text \<open>
  Slot \<open>i\<close> of \<open>shared_B[wid]\<close> is stored by the lane with \<open>lid = i\<close>, whose \<open>cid\<close> is
  \<open>i + hipBlockIdx_y * WF_SIZE\<close>; the lanes read the tile after the barrier.
\<close>

definition tn_shared_B :: "int \<Rightarrow> csrmm_args \<Rightarrow> int \<Rightarrow> int \<Rightarrow> int \<Rightarrow> complex" where
  "tn_shared_B WF_SIZE a blockIdx_y row i =
     (let cid = i + blockIdx_y * WF_SIZE;
          colB = cid * ldb a
      in if trans_B a = rocsparse_operation_conjugate_transpose
         then (if cid < dim_N a then rocsparse_conj (buf_B a (row + colB)) else 0)
         else (if cid < dim_N a then buf_B a (row + colB) else 0))"

definition tt_shared_B :: "int \<Rightarrow> csrmm_args \<Rightarrow> int \<Rightarrow> int \<Rightarrow> int \<Rightarrow> complex" where
  "tt_shared_B WF_SIZE a blockIdx_y row i =
     (let cid = i + blockIdx_y * WF_SIZE
      in if trans_B a = rocsparse_operation_conjugate_transpose
         then (if cid < dim_N a then rocsparse_conj (buf_B a (ldb a * row + cid)) else 0)
         else (if cid < dim_N a then buf_B a (ldb a * row + cid) else 0))"

text \<open>
  The scatter of one nonzero (lines 314 to 340; lines 396 to 422 of tt are the same
  text): one atomic addition for each column of the tile that is below \<open>N\<close>.
\<close>

definition scatter_entry ::
  "int \<Rightarrow> csrmm_args \<Rightarrow> int \<Rightarrow> (int \<Rightarrow> complex) \<Rightarrow> int \<Rightarrow> gstate \<Rightarrow> gstate option" where
  "scatter_entry WF_SIZE a blockIdx_y shared_B j s =
     (let col = csr_col_ind a j - base_of (idx_base a);
          val = (if trans_A a = rocsparse_operation_conjugate_transpose
                 then alpha a * rocsparse_conj (csr_val a j)
                 else alpha a * csr_val a j);
          s1 = (fst s, snd s @ [Read_col_ind j, Read_val j])
      in if order a = rocsparse_order_column
         then for_loop 0 WF_SIZE (\<lambda>i. i + blockIdx_y * WF_SIZE < dim_N a) 1
                (\<lambda>i s'. Some (atomicAdd (col + (i + blockIdx_y * WF_SIZE) * ldc a)
                                 (val * shared_B i) s')) s1
         else for_loop 0 WF_SIZE (\<lambda>i. i + blockIdx_y * WF_SIZE < dim_N a) 1
                (\<lambda>i s'. Some (atomicAdd (col * ldc a + (i + blockIdx_y * WF_SIZE))
                                 (val * shared_B i) s')) s1)"

definition tn_row ::
  "int \<Rightarrow> csrmm_args \<Rightarrow> int \<Rightarrow> int \<Rightarrow> int \<Rightarrow> gstate \<Rightarrow> gstate option" where
  "tn_row WF_SIZE a blockIdx_y lid row s =
     (let row_start = csr_row_ptr a row - base_of (idx_base a);
          row_end = csr_row_ptr a (row + 1) - base_of (idx_base a);
          cid = lid + blockIdx_y * WF_SIZE;
          colB = cid * ldb a;
          s1 = (fst s, snd s @ [Read_row_ptr row, Read_row_ptr (row + 1)]
                         @ (if cid < dim_N a then [Read_B (row + colB)] else []))
      in for_loop (row_start + lid) row_end (\<lambda>j. True) WF_SIZE
           (scatter_entry WF_SIZE a blockIdx_y (tn_shared_B WF_SIZE a blockIdx_y row)) s1)"

definition csrmmtn_general_device ::
  "int \<Rightarrow> int \<Rightarrow> launch \<Rightarrow> thread_id \<Rightarrow> csrmm_args \<Rightarrow> gstate \<Rightarrow> gstate option" where
  "csrmmtn_general_device BLOCKSIZE WF_SIZE l t a s =
     (if WF_SIZE = 0 then None
      else
        (let tid = hipThreadIdx_x t;
             gid = hipBlockIdx_x t * BLOCKSIZE + tid;
             lid = gid AND (WF_SIZE - 1);
             nwf = hipGridDim_x l * BLOCKSIZE div WF_SIZE
         in for_loop (gid div WF_SIZE) (dim_K a) (\<lambda>row. True) nwf
              (tn_row WF_SIZE a (hipBlockIdx_y t) lid) s))"

definition csrmmtn ::
  "int \<Rightarrow> int \<Rightarrow> launch \<Rightarrow> csrmm_args \<Rightarrow> gstate \<Rightarrow> gstate option" where
  "csrmmtn BLOCKSIZE WF_SIZE l a s =
     run_grid l (\<lambda>t. csrmmtn_general_device BLOCKSIZE WF_SIZE l t a) s"

definition tt_row ::
  "int \<Rightarrow> csrmm_args \<Rightarrow> int \<Rightarrow> int \<Rightarrow> int \<Rightarrow> gstate \<Rightarrow> gstate option" where
  "tt_row WF_SIZE a blockIdx_y lid row s =
     (let row_start = csr_row_ptr a row - base_of (idx_base a);
          row_end = csr_row_ptr a (row + 1) - base_of (idx_base a);
          cid = lid + blockIdx_y * WF_SIZE;
          s1 = (fst s, snd s @ [Read_row_ptr row, Read_row_ptr (row + 1)]
                         @ (if cid < dim_N a then [Read_B (ldb a * row + cid)] else []))
      in for_loop (row_start + lid) row_end (\<lambda>j. True) WF_SIZE
           (scatter_entry WF_SIZE a blockIdx_y (tt_shared_B WF_SIZE a blockIdx_y row)) s1)"

definition csrmmtt_general_device ::
  "int \<Rightarrow> int \<Rightarrow> launch \<Rightarrow> thread_id \<Rightarrow> csrmm_args \<Rightarrow> gstate \<Rightarrow> gstate option" where
  "csrmmtt_general_device BLOCKSIZE WF_SIZE l t a s =
     (if WF_SIZE = 0 then None
      else
        (let tid = hipThreadIdx_x t;
             gid = hipBlockIdx_x t * BLOCKSIZE + tid;
             lid = gid AND (WF_SIZE - 1);
             nwf = hipGridDim_x l * BLOCKSIZE div WF_SIZE
         in for_loop (gid div WF_SIZE) (dim_K a) (\<lambda>row. True) nwf
              (tt_row WF_SIZE a (hipBlockIdx_y t) lid) s))"

definition csrmmtt ::
  "int \<Rightarrow> int \<Rightarrow> launch \<Rightarrow> csrmm_args \<Rightarrow> gstate \<Rightarrow> gstate option" where
  "csrmmtt BLOCKSIZE WF_SIZE l a s =
     run_grid l (\<lambda>t. csrmmtt_general_device BLOCKSIZE WF_SIZE l t a) s"

section \<open>The nn kernel at a floating-point element type\<close>

text \<open>
  For \<open>T = float\<close> or \<open>double\<close> an element is a finite number, an infinity or NaN. The
  operations on these values are those of IEEE 754 arithmetic, which \<open>*\<close> and the fused
  multiply-add of the language follow: the product of an infinity and zero is NaN, the
  sum of the two infinities is NaN, and NaN propagates. Finite results are exact
  (rounding and the sign of zero are not modelled). NaN is not equal to zero.
\<close>

datatype ieee = Finite real | PInf | MInf | NaN

fun ieee_neg :: "ieee \<Rightarrow> ieee" where
  "ieee_neg (Finite x) = Finite (- x)"
| "ieee_neg PInf = MInf"
| "ieee_neg MInf = PInf"
| "ieee_neg NaN = NaN"

fun ieee_mul :: "ieee \<Rightarrow> ieee \<Rightarrow> ieee" where
  "ieee_mul (Finite x) (Finite y) = Finite (x * y)"
| "ieee_mul NaN y = NaN"
| "ieee_mul x NaN = NaN"
| "ieee_mul (Finite x) y = (if x = 0 then NaN else if 0 < x then y else ieee_neg y)"
| "ieee_mul x (Finite y) = (if y = 0 then NaN else if 0 < y then x else ieee_neg x)"
| "ieee_mul x y = (if x = y then PInf else MInf)"

fun ieee_add :: "ieee \<Rightarrow> ieee \<Rightarrow> ieee" where
  "ieee_add (Finite x) (Finite y) = Finite (x + y)"
| "ieee_add NaN y = NaN"
| "ieee_add x NaN = NaN"
| "ieee_add (Finite x) y = y"
| "ieee_add x (Finite y) = x"
| "ieee_add x y = (if x = y then x else NaN)"

text \<open>
  Modelled from the spec: \<open>rocsparse_conj\<close> and \<open>rocsparse_fma\<close> of \<open>common.h\<close> at a real
  element type (the identity, and the fused multiply-add \<open>a * b + c\<close>).
\<close>

definition rocsparse_conj_float :: "ieee \<Rightarrow> ieee" where
  "rocsparse_conj_float x = x"

definition rocsparse_fma_float :: "ieee \<Rightarrow> ieee \<Rightarrow> ieee \<Rightarrow> ieee" where
  "rocsparse_fma_float a b c = ieee_add (ieee_mul a b) c"

text \<open>
  \<open>csrmmnn_general_device\<close> (lines 32 to 129) at this element type: the definitions of
  the section on the nn kernel with \<open>static_cast<T>(0)\<close>, \<open>*\<close>, \<open>rocsparse_conj\<close> and
  \<open>rocsparse_fma\<close> at the type \<open>ieee\<close>.
\<close>

definition load_shared_val_float :: "ieee csrmm_arguments \<Rightarrow> int \<Rightarrow> int \<Rightarrow> ieee" where
  "load_shared_val_float a row_end k =
     (if trans_A a = rocsparse_operation_conjugate_transpose
      then (if k < row_end then rocsparse_conj_float (csr_val a k) else Finite 0)
      else (if k < row_end then csr_val a k else Finite 0))"

definition final_store_float ::
  "ieee csrmm_arguments \<Rightarrow> int \<Rightarrow> int \<Rightarrow> ieee \<Rightarrow> ieee state \<Rightarrow> ieee state" where
  "final_store_float a row col sumv s =
     (if beta a = Finite 0
      then (if order a = rocsparse_order_column
            then store_C (row + col * ldc a) (ieee_mul (alpha a) sumv) s
            else store_C (row * ldc a + col) (ieee_mul (alpha a) sumv) s)
      else (if order a = rocsparse_order_column
            then load_store_C (row + col * ldc a)
                   (\<lambda>c. rocsparse_fma_float (beta a) c (ieee_mul (alpha a) sumv)) s
            else load_store_C (row * ldc a + col)
                   (\<lambda>c. rocsparse_fma_float (beta a) c (ieee_mul (alpha a) sumv)) s))"

definition nn_scan_step_float ::
  "ieee csrmm_arguments \<Rightarrow> (int \<Rightarrow> int) \<Rightarrow> (int \<Rightarrow> ieee) \<Rightarrow> int \<Rightarrow> int
     \<Rightarrow> ieee \<times> access list \<Rightarrow> ieee \<times> access list" where
  "nn_scan_step_float a shared_col shared_val colB i s =
     (if trans_B a = rocsparse_operation_conjugate_transpose
      then (rocsparse_fma_float (shared_val i)
              (rocsparse_conj_float (buf_B a (shared_col i + colB))) (fst s),
            snd s @ [Read_B (shared_col i + colB)])
      else (rocsparse_fma_float (shared_val i) (buf_B a (shared_col i + colB)) (fst s),
            snd s @ [Read_B (shared_col i + colB)]))"

definition nn_tile_float ::
  "int \<Rightarrow> ieee csrmm_arguments \<Rightarrow> int \<Rightarrow> int \<Rightarrow> int \<Rightarrow> int \<Rightarrow> int
     \<Rightarrow> ieee \<times> access list \<Rightarrow> (ieee \<times> access list) option" where
  "nn_tile_float WF_SIZE a lid col colB row_end j s =
     (let k = j + lid;
          shared_col = (\<lambda>i. nn_shared_col a row_end (j + i));
          shared_val = (\<lambda>i. load_shared_val_float a row_end (j + i));
          s1 = (fst s, snd s @ load_trace row_end k)
      in for_loop 0 WF_SIZE (\<lambda>i. col < dim_N a) 1
           (\<lambda>i s'. Some (nn_scan_step_float a shared_col shared_val colB i s')) s1)"

definition nn_row_float ::
  "int \<Rightarrow> ieee csrmm_arguments \<Rightarrow> int \<Rightarrow> int \<Rightarrow> int \<Rightarrow> int \<Rightarrow> ieee state
     \<Rightarrow> ieee state option" where
  "nn_row_float WF_SIZE a lid col colB row s =
     (let row_start = csr_row_ptr a row - base_of (idx_base a);
          row_end = csr_row_ptr a (row + 1) - base_of (idx_base a);
          log1 = snd s @ [Read_row_ptr row, Read_row_ptr (row + 1)]
      in case for_loop row_start row_end (\<lambda>j. True) WF_SIZE
                (nn_tile_float WF_SIZE a lid col colB row_end) (Finite 0, log1) of
           None \<Rightarrow> None
         | Some r \<Rightarrow>
             Some (if col < dim_N a then final_store_float a row col (fst r) (fst s, snd r)
                   else (fst s, snd r)))"



section \<open>Logical matrices and valid inputs\<close>

text \<open>
  Modelled from the spec: the leading dimension is the stride between consecutive
  rows or columns of a dense buffer, and the order flag selects row-major or
  column-major addressing. \<open>dense_index\<close> is the offset of element \<open>(i, j)\<close>; the
  offsets of the elements of the logical \<open>m\<close> by \<open>n\<close> matrix form its region, and
  \<open>ld_ok\<close> says that the leading dimension is not below the extent it strides over, so
  that different elements have different offsets.
\<close>

definition dense_index :: "rocsparse_order \<Rightarrow> int \<Rightarrow> int \<Rightarrow> int \<Rightarrow> int" where
  "dense_index ord ld i j = (if ord = rocsparse_order_column then i + j * ld else i * ld + j)"

definition C_index :: "'T csrmm_arguments \<Rightarrow> int \<Rightarrow> int \<Rightarrow> int" where
  "C_index a i j = dense_index (order a) (ldc a) i j"

definition in_region :: "rocsparse_order \<Rightarrow> int \<Rightarrow> int \<Rightarrow> int \<Rightarrow> int \<Rightarrow> bool" where
  "in_region ord ld m n a \<longleftrightarrow> (\<exists>i j. 0 \<le> i \<and> i < m \<and> 0 \<le> j \<and> j < n \<and> a = dense_index ord ld i j)"

definition ld_ok :: "rocsparse_order \<Rightarrow> int \<Rightarrow> int \<Rightarrow> int \<Rightarrow> bool" where
  "ld_ok ord ld m n \<longleftrightarrow> (if ord = rocsparse_order_column then m \<le> ld else n \<le> ld)"

text \<open>
  The range of a stored row and the column of an entry, after the index-base
  correction of the source (\<open>csr_row_ptr[row] - idx_base\<close>, \<open>csr_col_ind[k] - idx_base\<close>).
\<close>

definition row_begin :: "'T csrmm_arguments \<Rightarrow> int \<Rightarrow> int" where
  "row_begin a row = csr_row_ptr a row - base_of (idx_base a)"

definition row_finish :: "'T csrmm_arguments \<Rightarrow> int \<Rightarrow> int" where
  "row_finish a row = csr_row_ptr a (row + 1) - base_of (idx_base a)"

definition col_of :: "'T csrmm_arguments \<Rightarrow> int \<Rightarrow> int" where
  "col_of a k = csr_col_ind a k - base_of (idx_base a)"

text \<open>
  Modelled from the spec: the invariants of a CSR matrix with \<open>rows\<close> stored rows
  and \<open>cols\<close> columns, which the host validates before a launch: \<open>row_ptr\<close> does not
  decrease, every column index is in bounds after the index-base correction, and
  \<open>nnz = row_ptr[rows] - row_ptr[0]\<close>.
\<close>

definition csr_valid :: "int \<Rightarrow> int \<Rightarrow> 'T csrmm_arguments \<Rightarrow> bool" where
  "csr_valid rows cols a \<longleftrightarrow>
     nnz a = csr_row_ptr a rows - csr_row_ptr a 0 \<and>
     (\<forall>r\<in>set [0 .. rows - 1].
        csr_row_ptr a r \<le> csr_row_ptr a (r + 1) \<and>
        (\<forall>k\<in>set [row_begin a r .. row_finish a r - 1]. 0 \<le> col_of a k \<and> col_of a k < cols))"

section \<open>The reference computation\<close>

text \<open>
  Modelled from the spec: the reference triple loop over \<open>i < M\<close>, \<open>j < N\<close>,
  \<open>k < K\<close> of \<open>alpha * op(A) * op(B) + beta * C\<close>. \<open>csr_dense\<close> is the dense matrix
  that the CSR arrays store (entries of the same position add up), \<open>mat_B\<close> the dense
  matrix in the buffer of B, and \<open>op\<close> transposes, and conjugates for
  conjugate-transpose. \<open>op_val\<close> is what a mode does to a single value.
\<close>

definition op_val :: "rocsparse_operation \<Rightarrow> complex \<Rightarrow> complex" where
  "op_val tr x = (if tr = rocsparse_operation_conjugate_transpose then cnj x else x)"

definition csr_dense :: "csrmm_args \<Rightarrow> int \<Rightarrow> int \<Rightarrow> complex" where
  "csr_dense a r c =
     (\<Sum>k\<in>{row_begin a r..<row_finish a r}. if col_of a k = c then csr_val a k else 0)"

definition op_A :: "csrmm_args \<Rightarrow> int \<Rightarrow> int \<Rightarrow> complex" where
  "op_A a i k =
     (case trans_A a of
        rocsparse_operation_none \<Rightarrow> csr_dense a i k
      | rocsparse_operation_transpose \<Rightarrow> csr_dense a k i
      | rocsparse_operation_conjugate_transpose \<Rightarrow> cnj (csr_dense a k i))"

definition mat_B :: "csrmm_args \<Rightarrow> int \<Rightarrow> int \<Rightarrow> complex" where
  "mat_B a r c = buf_B a (dense_index (order a) (ldb a) r c)"

definition op_B :: "csrmm_args \<Rightarrow> int \<Rightarrow> int \<Rightarrow> complex" where
  "op_B a k j =
     (case trans_B a of
        rocsparse_operation_none \<Rightarrow> mat_B a k j
      | rocsparse_operation_transpose \<Rightarrow> mat_B a j k
      | rocsparse_operation_conjugate_transpose \<Rightarrow> cnj (mat_B a j k))"

definition csrmm_reference :: "csrmm_args \<Rightarrow> complex buf \<Rightarrow> int \<Rightarrow> int \<Rightarrow> complex" where
  "csrmm_reference a C i j =
     alpha a * (\<Sum>k\<in>{0..<dim_K a}. op_A a i k * op_B a k j) + beta a * C (C_index a i j)"

text \<open>
  Modelled from the spec: the selection of the kernel variant is host code that is not
  part of the sources at hand. A variant serves the combinations of transpose mode and
  order whose addressing of \<open>op(B)\<close> it implements: element \<open>(k, j)\<close> of \<open>op(B)\<close> is
  at \<open>B[k + j * ldb]\<close> when \<open>op(B)\<close> is stored by columns (nn, tn) and at
  \<open>B[j + ldb * k]\<close> when it is stored by rows (nt, tt). \<open>B_transposed a Bt ldbt\<close> says
  that \<open>Bt\<close> holds by rows the \<open>K\<close> by \<open>N\<close> matrix that the buffer of \<open>a\<close> holds by
  columns.
\<close>

definition B_by_columns :: "csrmm_args \<Rightarrow> bool" where
  "B_by_columns a \<longleftrightarrow>
     (order a = rocsparse_order_column \<and> trans_B a = rocsparse_operation_none) \<or>
     (order a = rocsparse_order_row \<and> trans_B a \<noteq> rocsparse_operation_none)"

definition B_by_rows :: "csrmm_args \<Rightarrow> bool" where
  "B_by_rows a \<longleftrightarrow>
     (order a = rocsparse_order_row \<and> trans_B a = rocsparse_operation_none) \<or>
     (order a = rocsparse_order_column \<and> trans_B a \<noteq> rocsparse_operation_none)"

definition B_transposed :: "csrmm_args \<Rightarrow> complex buf \<Rightarrow> int \<Rightarrow> bool" where
  "B_transposed a Bt ldbt \<longleftrightarrow>
     (\<forall>k\<in>set [0 .. dim_K a - 1]. \<forall>j\<in>set [0 .. dim_N a - 1].
        Bt (j + ldbt * k) = buf_B a (k + j * ldb a))"

section \<open>Launches that cover the matrix\<close>

text \<open>
  Modelled from the spec: the host chooses the subgroup width and the block and grid
  dimensions. \<open>WF_SIZE\<close> is a power of two that divides \<open>BLOCKSIZE\<close>, a block has
  \<open>BLOCKSIZE\<close> threads in one row, and the grid is not empty. The nn, tn and tt kernels
  need \<open>hipGridDim_y\<close> tiles of \<open>WF_SIZE\<close> columns to cover \<open>N\<close>; the nt kernel takes
  one row for each wavefront and ignores \<open>hipBlockIdx_y\<close>; the scale kernel needs a
  thread for each element.
\<close>

definition is_pow2 :: "int \<Rightarrow> bool" where
  "is_pow2 n \<longleftrightarrow> (\<exists>w::nat. n = 2 ^ w)"

definition launch_ok :: "int \<Rightarrow> int \<Rightarrow> launch \<Rightarrow> bool" where
  "launch_ok BLOCKSIZE WF_SIZE l \<longleftrightarrow>
     is_pow2 WF_SIZE \<and> WF_SIZE dvd BLOCKSIZE \<and> 0 < BLOCKSIZE \<and>
     hipBlockDim_x l = BLOCKSIZE \<and> hipBlockDim_y l = 1 \<and>
     0 < hipGridDim_x l \<and> 0 < hipGridDim_y l"

definition nn_launch :: "int \<Rightarrow> int \<Rightarrow> launch \<Rightarrow> csrmm_args \<Rightarrow> bool" where
  "nn_launch BLOCKSIZE WF_SIZE l a \<longleftrightarrow>
     launch_ok BLOCKSIZE WF_SIZE l \<and> dim_N a \<le> hipGridDim_y l * WF_SIZE"

definition nt_launch :: "int \<Rightarrow> int \<Rightarrow> launch \<Rightarrow> csrmm_args \<Rightarrow> bool" where
  "nt_launch BLOCKSIZE WF_SIZE l a \<longleftrightarrow>
     launch_ok BLOCKSIZE WF_SIZE l \<and> dim_M a \<le> hipGridDim_x l * BLOCKSIZE div WF_SIZE \<and>
     hipGridDim_y l = 1"

definition tn_launch :: "int \<Rightarrow> int \<Rightarrow> launch \<Rightarrow> csrmm_args \<Rightarrow> bool" where
  "tn_launch BLOCKSIZE WF_SIZE l a \<longleftrightarrow>
     launch_ok BLOCKSIZE WF_SIZE l \<and> dim_N a \<le> hipGridDim_y l * WF_SIZE"

definition scale_launch :: "launch \<Rightarrow> int \<Rightarrow> int \<Rightarrow> bool" where
  "scale_launch l m n \<longleftrightarrow>
     0 < hipBlockDim_x l \<and> 0 < hipBlockDim_y l \<and>
     m \<le> hipGridDim_x l * hipBlockDim_x l \<and> n \<le> hipGridDim_y l * hipBlockDim_y l"

section \<open>Closed forms of the kernels\<close>

text \<open>
  The values that a loop counter takes, and the indices of a thread.
\<close>

function strided :: "int \<Rightarrow> int \<Rightarrow> int \<Rightarrow> int list" where
  "strided i hi step = (if i < hi \<and> 0 < step then i # strided (i + step) hi step else [])"
  by pat_completeness auto
termination
  by (relation "measure (\<lambda>(i, hi, step). nat (hi - i))") auto

declare strided.simps [simp del]

definition thread_gid :: "int \<Rightarrow> thread_id \<Rightarrow> int" where
  "thread_gid BLOCKSIZE t = hipBlockIdx_x t * BLOCKSIZE + hipThreadIdx_x t"

definition thread_lid :: "int \<Rightarrow> int \<Rightarrow> thread_id \<Rightarrow> int" where
  "thread_lid BLOCKSIZE WF_SIZE t = (hipBlockIdx_x t * BLOCKSIZE + hipThreadIdx_x t) mod WF_SIZE"

definition thread_col :: "int \<Rightarrow> int \<Rightarrow> thread_id \<Rightarrow> int" where
  "thread_col BLOCKSIZE WF_SIZE t = thread_gid BLOCKSIZE t mod WF_SIZE + hipBlockIdx_y t * WF_SIZE"

definition thread_rows :: "int \<Rightarrow> int \<Rightarrow> launch \<Rightarrow> int \<Rightarrow> thread_id \<Rightarrow> int list" where
  "thread_rows BLOCKSIZE WF_SIZE l rows t =
     strided ((hipBlockIdx_x t * BLOCKSIZE + hipThreadIdx_x t) div WF_SIZE) rows
       (hipGridDim_x l * BLOCKSIZE div WF_SIZE)"

text \<open>
  The effect of one thread of the scale kernel on the buffer, and its trace.
\<close>

definition scale_C ::
  "launch \<Rightarrow> int \<Rightarrow> int \<Rightarrow> complex \<Rightarrow> int \<Rightarrow> rocsparse_order \<Rightarrow> thread_id \<Rightarrow> complex buf \<Rightarrow> complex buf" where
  "scale_C l m n b ld ord t C =
     (let gidx = hipBlockIdx_x t * hipBlockDim_x l + hipThreadIdx_x t;
          gidy = hipBlockIdx_y t * hipBlockDim_y l + hipThreadIdx_y t
      in if gidx \<ge> m \<or> gidy \<ge> n then C
         else C(dense_index ord ld gidx gidy := C (dense_index ord ld gidx gidy) * b))"

definition scale_trace ::
  "launch \<Rightarrow> int \<Rightarrow> int \<Rightarrow> int \<Rightarrow> rocsparse_order \<Rightarrow> thread_id \<Rightarrow> access list" where
  "scale_trace l m n ld ord t =
     (let gidx = hipBlockIdx_x t * hipBlockDim_x l + hipThreadIdx_x t;
          gidy = hipBlockIdx_y t * hipBlockDim_y l + hipThreadIdx_y t
      in if gidx \<ge> m \<or> gidy \<ge> n then []
         else [Read_C (dense_index ord ld gidx gidy), Write_C (dense_index ord ld gidx gidy)])"

text \<open>
  The row-parallel kernels: the product of one nonzero, the sum of a row, the value
  that the final store leaves, and the effects and traces of a tile, a row and a thread.
\<close>

definition nn_term :: "csrmm_args \<Rightarrow> int \<Rightarrow> int \<Rightarrow> complex" where
  "nn_term a colB k =
     op_val (trans_A a) (csr_val a k) * op_val (trans_B a) (buf_B a (col_of a k + colB))"

definition nn_row_sum :: "csrmm_args \<Rightarrow> int \<Rightarrow> int \<Rightarrow> complex" where
  "nn_row_sum a colB row = (\<Sum>k\<in>{row_begin a row..<row_finish a row}. nn_term a colB k)"

definition store_value :: "csrmm_args \<Rightarrow> complex \<Rightarrow> complex \<Rightarrow> complex" where
  "store_value a sumv c = (if beta a = 0 then alpha a * sumv else beta a * c + alpha a * sumv)"

definition store_trace :: "csrmm_args \<Rightarrow> int \<Rightarrow> access list" where
  "store_trace a x = (if beta a = 0 then [Write_C x] else [Read_C x, Write_C x])"

definition nn_tile_trace :: "int \<Rightarrow> csrmm_args \<Rightarrow> int \<Rightarrow> int \<Rightarrow> int \<Rightarrow> int \<Rightarrow> int \<Rightarrow> access list" where
  "nn_tile_trace WF_SIZE a lid col colB row_end j =
     load_trace row_end (j + lid) @
     (if col < dim_N a
      then map (\<lambda>i. Read_B (nn_shared_col a row_end (j + i) + colB)) (strided 0 WF_SIZE 1)
      else [])"

definition nn_row_C :: "csrmm_args \<Rightarrow> int \<Rightarrow> int \<Rightarrow> int \<Rightarrow> complex buf \<Rightarrow> complex buf" where
  "nn_row_C a col colB row C =
     (if col < dim_N a
      then C(dense_index (order a) (ldc a) row col :=
               store_value a (nn_row_sum a colB row) (C (dense_index (order a) (ldc a) row col)))
      else C)"

definition nn_row_trace :: "int \<Rightarrow> csrmm_args \<Rightarrow> int \<Rightarrow> int \<Rightarrow> int \<Rightarrow> int \<Rightarrow> access list" where
  "nn_row_trace WF_SIZE a lid col colB row =
     [Read_row_ptr row, Read_row_ptr (row + 1)] @
     concat (map (nn_tile_trace WF_SIZE a lid col colB (row_finish a row))
               (strided (row_begin a row) (row_finish a row) WF_SIZE)) @
     (if col < dim_N a then store_trace a (dense_index (order a) (ldc a) row col) else [])"

definition nn_thread_C :: "int \<Rightarrow> int \<Rightarrow> launch \<Rightarrow> csrmm_args \<Rightarrow> thread_id \<Rightarrow> complex buf \<Rightarrow> complex buf" where
  "nn_thread_C BLOCKSIZE WF_SIZE l a t C =
     (let gid = hipBlockIdx_x t * BLOCKSIZE + hipThreadIdx_x t;
          col = gid mod WF_SIZE + hipBlockIdx_y t * WF_SIZE
      in fold (nn_row_C a col (col * ldb a))
           (strided (gid div WF_SIZE) (dim_M a) (hipGridDim_x l * BLOCKSIZE div WF_SIZE)) C)"

definition nn_thread_trace :: "int \<Rightarrow> int \<Rightarrow> launch \<Rightarrow> csrmm_args \<Rightarrow> thread_id \<Rightarrow> access list" where
  "nn_thread_trace BLOCKSIZE WF_SIZE l a t =
     (let gid = hipBlockIdx_x t * BLOCKSIZE + hipThreadIdx_x t;
          lid = gid mod WF_SIZE;
          col = lid + hipBlockIdx_y t * WF_SIZE
      in concat (map (nn_row_trace WF_SIZE a lid col (col * ldb a))
           (strided (gid div WF_SIZE) (dim_M a) (hipGridDim_x l * BLOCKSIZE div WF_SIZE))))"

definition nt_term :: "csrmm_args \<Rightarrow> int \<Rightarrow> int \<Rightarrow> complex" where
  "nt_term a col k =
     op_val (trans_A a) (csr_val a k) * op_val (trans_B a) (buf_B a (col + ldb a * col_of a k))"

definition nt_row_sum :: "csrmm_args \<Rightarrow> int \<Rightarrow> int \<Rightarrow> complex" where
  "nt_row_sum a col row = (\<Sum>k\<in>{row_begin a row..<row_finish a row}. nt_term a col k)"

definition nt_tile_trace :: "int \<Rightarrow> csrmm_args \<Rightarrow> int \<Rightarrow> int \<Rightarrow> int \<Rightarrow> int \<Rightarrow> int \<Rightarrow> access list" where
  "nt_tile_trace WF_SIZE a lid col ncol row_end j =
     load_trace row_end (j + lid) @
     concat (map (\<lambda>i. if col < ncol then [Read_B (col + nt_shared_col a row_end (j + i))] else [])
               (strided 0 WF_SIZE 1))"

definition nt_col_tile_C :: "csrmm_args \<Rightarrow> int \<Rightarrow> int \<Rightarrow> int \<Rightarrow> int \<Rightarrow> complex buf \<Rightarrow> complex buf" where
  "nt_col_tile_C a lid ncol row l C =
     (if l + lid < ncol
      then C(dense_index (order a) (ldc a) row (l + lid) :=
               store_value a (nt_row_sum a (l + lid) row)
                 (C (dense_index (order a) (ldc a) row (l + lid))))
      else C)"

definition nt_col_tile_trace :: "int \<Rightarrow> csrmm_args \<Rightarrow> int \<Rightarrow> int \<Rightarrow> int \<Rightarrow> int \<Rightarrow> access list" where
  "nt_col_tile_trace WF_SIZE a lid ncol row l =
     concat (map (nt_tile_trace WF_SIZE a lid (l + lid) ncol (row_finish a row))
               (strided (row_begin a row) (row_finish a row) WF_SIZE)) @
     (if l + lid < ncol then store_trace a (dense_index (order a) (ldc a) row (l + lid)) else [])"

definition nt_thread_C ::
  "int \<Rightarrow> int \<Rightarrow> csrmm_args \<Rightarrow> int \<Rightarrow> int \<Rightarrow> thread_id \<Rightarrow> complex buf \<Rightarrow> complex buf" where
  "nt_thread_C BLOCKSIZE WF_SIZE a offset ncol t C =
     (let row = (hipBlockIdx_x t * BLOCKSIZE + hipThreadIdx_x t) div WF_SIZE
      in if row \<ge> dim_M a then C
         else fold (nt_col_tile_C a (hipThreadIdx_x t mod WF_SIZE) ncol row)
                (strided offset ncol WF_SIZE) C)"

definition nt_thread_trace ::
  "int \<Rightarrow> int \<Rightarrow> csrmm_args \<Rightarrow> int \<Rightarrow> int \<Rightarrow> thread_id \<Rightarrow> access list" where
  "nt_thread_trace BLOCKSIZE WF_SIZE a offset ncol t =
     (let row = (hipBlockIdx_x t * BLOCKSIZE + hipThreadIdx_x t) div WF_SIZE
      in if row \<ge> dim_M a then []
         else [Read_row_ptr row, Read_row_ptr (row + 1)] @
              concat (map (nt_col_tile_trace WF_SIZE a (hipThreadIdx_x t mod WF_SIZE) ncol row)
                        (strided offset ncol WF_SIZE)))"

text \<open>
  The transposed kernels: the list of the atomic additions (offset and value) of a
  nonzero, of a row and of a thread; \<open>hits x us\<close> is what the additions \<open>us\<close> add to
  offset \<open>x\<close>.
\<close>

definition apply_adds :: "(int \<times> complex) list \<Rightarrow> complex buf \<Rightarrow> complex buf" where
  "apply_adds us C = fold (\<lambda>u C'. C'(fst u := C' (fst u) + snd u)) us C"

definition hits :: "int \<Rightarrow> (int \<times> complex) list \<Rightarrow> complex" where
  "hits x us = sum_list (map snd (filter (\<lambda>u. fst u = x) us))"

definition scatter_adds ::
  "int \<Rightarrow> csrmm_args \<Rightarrow> int \<Rightarrow> (int \<Rightarrow> complex) \<Rightarrow> int \<Rightarrow> (int \<times> complex) list" where
  "scatter_adds WF_SIZE a blockIdx_y shared_B j =
     map (\<lambda>i. (dense_index (order a) (ldc a) (col_of a j) (i + blockIdx_y * WF_SIZE),
                alpha a * op_val (trans_A a) (csr_val a j) * shared_B i))
       (strided 0 (min WF_SIZE (dim_N a - blockIdx_y * WF_SIZE)) 1)"

definition scatter_trace :: "int \<Rightarrow> csrmm_args \<Rightarrow> int \<Rightarrow> int \<Rightarrow> access list" where
  "scatter_trace WF_SIZE a blockIdx_y j =
     [Read_col_ind j, Read_val j] @
     map (\<lambda>i. AtomicAdd_C (dense_index (order a) (ldc a) (col_of a j) (i + blockIdx_y * WF_SIZE)))
       (strided 0 (min WF_SIZE (dim_N a - blockIdx_y * WF_SIZE)) 1)"

definition scatter_term :: "csrmm_args \<Rightarrow> int \<Rightarrow> complex \<Rightarrow> int \<Rightarrow> complex" where
  "scatter_term a i b e =
     (if col_of a e = i then alpha a * op_val (trans_A a) (csr_val a e) * b else 0)"

definition row_adds ::
  "int \<Rightarrow> csrmm_args \<Rightarrow> int \<Rightarrow> (int \<Rightarrow> complex) \<Rightarrow> int \<Rightarrow> int \<Rightarrow> (int \<times> complex) list" where
  "row_adds WF_SIZE a blockIdx_y shared_B lid row =
     concat (map (scatter_adds WF_SIZE a blockIdx_y shared_B)
               (strided (row_begin a row + lid) (row_finish a row) WF_SIZE))"

definition row_trace ::
  "int \<Rightarrow> csrmm_args \<Rightarrow> int \<Rightarrow> int \<Rightarrow> int \<Rightarrow> int \<Rightarrow> access list" where
  "row_trace WF_SIZE a blockIdx_y addr_B lid row =
     [Read_row_ptr row, Read_row_ptr (row + 1)] @
     (if lid + blockIdx_y * WF_SIZE < dim_N a then [Read_B addr_B] else []) @
     concat (map (scatter_trace WF_SIZE a blockIdx_y)
               (strided (row_begin a row + lid) (row_finish a row) WF_SIZE))"

definition tn_thread_adds ::
  "int \<Rightarrow> int \<Rightarrow> launch \<Rightarrow> csrmm_args \<Rightarrow> thread_id \<Rightarrow> (int \<times> complex) list" where
  "tn_thread_adds BLOCKSIZE WF_SIZE l a t =
     concat (map (\<lambda>row. row_adds WF_SIZE a (hipBlockIdx_y t)
                          (tn_shared_B WF_SIZE a (hipBlockIdx_y t) row)
                          (thread_lid BLOCKSIZE WF_SIZE t) row)
               (thread_rows BLOCKSIZE WF_SIZE l (dim_K a) t))"

definition tn_thread_trace ::
  "int \<Rightarrow> int \<Rightarrow> launch \<Rightarrow> csrmm_args \<Rightarrow> thread_id \<Rightarrow> access list" where
  "tn_thread_trace BLOCKSIZE WF_SIZE l a t =
     concat (map (\<lambda>row. row_trace WF_SIZE a (hipBlockIdx_y t)
                          (row + (thread_lid BLOCKSIZE WF_SIZE t + hipBlockIdx_y t * WF_SIZE) * ldb a)
                          (thread_lid BLOCKSIZE WF_SIZE t) row)
               (thread_rows BLOCKSIZE WF_SIZE l (dim_K a) t))"

definition tt_thread_adds ::
  "int \<Rightarrow> int \<Rightarrow> launch \<Rightarrow> csrmm_args \<Rightarrow> thread_id \<Rightarrow> (int \<times> complex) list" where
  "tt_thread_adds BLOCKSIZE WF_SIZE l a t =
     concat (map (\<lambda>row. row_adds WF_SIZE a (hipBlockIdx_y t)
                          (tt_shared_B WF_SIZE a (hipBlockIdx_y t) row)
                          (thread_lid BLOCKSIZE WF_SIZE t) row)
               (thread_rows BLOCKSIZE WF_SIZE l (dim_K a) t))"

definition tt_thread_trace ::
  "int \<Rightarrow> int \<Rightarrow> launch \<Rightarrow> csrmm_args \<Rightarrow> thread_id \<Rightarrow> access list" where
  "tt_thread_trace BLOCKSIZE WF_SIZE l a t =
     concat (map (\<lambda>row. row_trace WF_SIZE a (hipBlockIdx_y t)
                          (ldb a * row + (thread_lid BLOCKSIZE WF_SIZE t + hipBlockIdx_y t * WF_SIZE))
                          (thread_lid BLOCKSIZE WF_SIZE t) row)
               (thread_rows BLOCKSIZE WF_SIZE l (dim_K a) t))"

fun is_Read_B :: "access \<Rightarrow> bool" where
  "is_Read_B (Read_B x) = True"
| "is_Read_B e = False"

section \<open>Example inputs\<close>

text \<open>
  Small inputs for the concrete instances, with the element of C and the trace that a
  run returns. \<open>ex_identity\<close> is the first example of the spec: the 3 by 3 identity in
  CSR times a row-major 3 by 2 matrix B.
\<close>

definition zero_C :: "complex buf" where
  "zero_C = (\<lambda>x. 0)"

definition result_at :: "int \<Rightarrow> 'T state option \<Rightarrow> 'T option" where
  "result_at x r = map_option (\<lambda>s. fst s x) r"

definition trace_of :: "gstate option \<Rightarrow> access list" where
  "trace_of r = (case r of None \<Rightarrow> [] | Some s \<Rightarrow> snd s)"

definition ten_C :: "complex buf" where
  "ten_C = (\<lambda>x. 10)"

definition ex_launch :: launch where
  "ex_launch = \<lparr>hipGridDim_x = 2, hipGridDim_y = 1, hipBlockDim_x = 2, hipBlockDim_y = 1\<rparr>"

definition ex_launch3 :: launch where
  "ex_launch3 = \<lparr>hipGridDim_x = 3, hipGridDim_y = 1, hipBlockDim_x = 2, hipBlockDim_y = 1\<rparr>"

definition ex_scale_launch :: launch where
  "ex_scale_launch = \<lparr>hipGridDim_x = 1, hipGridDim_y = 1, hipBlockDim_x = 2, hipBlockDim_y = 2\<rparr>"

definition ex_identity :: csrmm_args where
  "ex_identity =
     \<lparr>trans_A = rocsparse_operation_none, trans_B = rocsparse_operation_none,
      dim_M = 3, dim_N = 2, dim_K = 3, nnz = 3, alpha = 1,
      csr_row_ptr = (\<lambda>i. i), csr_col_ind = (\<lambda>k. k),
      csr_val = (\<lambda>k. 1), buf_B = (\<lambda>x. x + 1),
      ldb = 2, beta = 0, ldc = 2,
      order = rocsparse_order_row, idx_base = rocsparse_index_base_zero\<rparr>"


definition ex_conj :: csrmm_args where
  "ex_conj =
     \<lparr>trans_A = rocsparse_operation_conjugate_transpose,
      trans_B = rocsparse_operation_conjugate_transpose,
      dim_M = 1, dim_N = 1, dim_K = 1, nnz = 1, alpha = 1,
      csr_row_ptr = (\<lambda>i. i), csr_col_ind = (\<lambda>k. 0),
      csr_val = (\<lambda>k. \<i>), buf_B = (\<lambda>x. 2 * \<i>),
      ldb = 1, beta = 0, ldc = 1,
      order = rocsparse_order_column, idx_base = rocsparse_index_base_zero\<rparr>"

definition ex_nn_nt :: csrmm_args where
  "ex_nn_nt =
     \<lparr>trans_A = rocsparse_operation_none, trans_B = rocsparse_operation_none,
      dim_M = 1, dim_N = 2, dim_K = 2, nnz = 1, alpha = 1,
      csr_row_ptr = (\<lambda>i. i), csr_col_ind = (\<lambda>k. 0),
      csr_val = (\<lambda>k. 1), buf_B = (\<lambda>x. x + 1),
      ldb = 2, beta = 0, ldc = 1,
      order = rocsparse_order_column, idx_base = rocsparse_index_base_zero\<rparr>"

definition ex_nn_transposed :: csrmm_args where
  "ex_nn_transposed =
     \<lparr>trans_A = rocsparse_operation_transpose, trans_B = rocsparse_operation_none,
      dim_M = 2, dim_N = 1, dim_K = 2, nnz = 1, alpha = 1,
      csr_row_ptr = (\<lambda>i. if i = 0 then 0 else 1), csr_col_ind = (\<lambda>k. 1),
      csr_val = (\<lambda>k. 1), buf_B = (\<lambda>x. if x = 0 then 5 else 7),
      ldb = 2, beta = 0, ldc = 2,
      order = rocsparse_order_column, idx_base = rocsparse_index_base_zero\<rparr>"

definition ex_tn :: csrmm_args where
  "ex_tn =
     \<lparr>trans_A = rocsparse_operation_transpose, trans_B = rocsparse_operation_none,
      dim_M = 1, dim_N = 1, dim_K = 2, nnz = 2, alpha = 1,
      csr_row_ptr = (\<lambda>i. i), csr_col_ind = (\<lambda>k. 0),
      csr_val = (\<lambda>k. if k = 0 then 2 else 3), buf_B = (\<lambda>x. if x = 0 then 5 else 7),
      ldb = 2, beta = 1, ldc = 1,
      order = rocsparse_order_column, idx_base = rocsparse_index_base_zero\<rparr>"

definition ex_tn_wide :: csrmm_args where
  "ex_tn_wide =
     \<lparr>trans_A = rocsparse_operation_transpose, trans_B = rocsparse_operation_none,
      dim_M = 1, dim_N = 2, dim_K = 2, nnz = 2, alpha = 1,
      csr_row_ptr = (\<lambda>i. i), csr_col_ind = (\<lambda>k. 0),
      csr_val = (\<lambda>k. if k = 0 then 2 else 3), buf_B = (\<lambda>x. x + 1),
      ldb = 2, beta = 2, ldc = 1,
      order = rocsparse_order_column, idx_base = rocsparse_index_base_zero\<rparr>"

definition ex_tt_wide :: csrmm_args where
  "ex_tt_wide = ex_tn_wide\<lparr>order := rocsparse_order_row, ldc := 2\<rparr>"

definition ex_tn_none :: csrmm_args where
  "ex_tn_none = ex_nn_transposed\<lparr>trans_A := rocsparse_operation_none, beta := 2\<rparr>"



section \<open>Loops, launches and folds\<close>

lemma for_loop_fold_Some:
  assumes "0 < step"
  shows "for_loop i hi (\<lambda>x. True) step (\<lambda>i s. Some (f i s)) s =
         Some (fold f (strided i hi step) s)"
  using assms
proof (induction i hi step arbitrary: s rule: strided.induct)
  case (1 i hi step)
  show ?case
  proof (cases "i < hi")
    case True
    then show ?thesis
      using 1 by (subst for_loop.simps, subst strided.simps) simp
  next
    case False
    then show ?thesis
      by (subst for_loop.simps, subst strided.simps) simp
  qed
qed

lemma for_loop_fold:
  assumes "0 < step" and "\<And>i s. body i s = Some (f i s)"
  shows "for_loop i hi (\<lambda>x. True) step body s = Some (fold f (strided i hi step) s)"
proof -
  have "body = (\<lambda>i s. Some (f i s))"
    using assms(2) by (intro ext) simp
  then show ?thesis
    using for_loop_fold_Some [OF assms(1)] by simp
qed

lemma for_loop_cond_False: "for_loop i hi (\<lambda>x. False) step body s = Some s"
  by (simp add: for_loop.simps)

lemma for_loop_cond_bound:
  assumes "0 < step"
  shows "for_loop i hi (\<lambda>x. x + c < n) step body s =
         for_loop i (min hi (n - c)) (\<lambda>x. True) step body s"
  using assms
proof (induction i hi step arbitrary: s rule: strided.induct)
  case (1 i hi step)
  show ?case
  proof (cases "i < hi \<and> i + c < n")
    case True
    then have "i < min hi (n - c)" by simp
    then show ?thesis
      using 1 True
      by (simp add: for_loop.simps [of i hi "\<lambda>x. x + c < n"]
            for_loop.simps [of i "min hi (n - c)"] split: option.splits)
  next
    case False
    then have "\<not> i < min hi (n - c)" by auto
    then show ?thesis
      using False
      by (auto simp add: for_loop.simps [of i hi "\<lambda>x. x + c < n"]
            for_loop.simps [of i "min hi (n - c)"])
  qed
qed

lemma fold_bind_None: "fold (\<lambda>t r. Option.bind r (thr t)) ts None = None"
  by (induction ts) simp_all

lemma fold_bind_closed:
  assumes "\<And>t C tr. t \<in> set ts \<Longrightarrow> thr t (C, tr) = Some (TC t C, tr @ TT t)"
  shows "fold (\<lambda>t r. Option.bind r (thr t)) ts (Some (C, tr)) =
         Some (fold TC ts C, tr @ concat (map TT ts))"
  using assms
proof (induction ts arbitrary: C tr)
  case Nil
  then show ?case by simp
next
  case (Cons t ts)
  then show ?case by simp
qed

lemma run_grid_closed:
  assumes "\<And>t C tr. t \<in> set (grid_threads l) \<Longrightarrow> thr t (C, tr) = Some (TC t C, tr @ TT t)"
  shows "run_grid l thr (C, tr) =
         Some (fold TC (grid_threads l) C, tr @ concat (map TT (grid_threads l)))"
  unfolding run_grid_def using assms by (rule fold_bind_closed)

lemma grid_threads_mem:
  "t \<in> set (grid_threads l) \<longleftrightarrow>
     0 \<le> hipBlockIdx_x t \<and> hipBlockIdx_x t < hipGridDim_x l \<and>
     0 \<le> hipBlockIdx_y t \<and> hipBlockIdx_y t < hipGridDim_y l \<and>
     0 \<le> hipThreadIdx_x t \<and> hipThreadIdx_x t < hipBlockDim_x l \<and>
     0 \<le> hipThreadIdx_y t \<and> hipThreadIdx_y t < hipBlockDim_y l"
  by (cases t) (fastforce simp: grid_threads_def)

lemma distinct_concat_map:
  assumes "distinct xs" and "\<And>x. x \<in> set xs \<Longrightarrow> distinct (f x)"
    and "\<And>x y. x \<in> set xs \<Longrightarrow> y \<in> set xs \<Longrightarrow> x \<noteq> y \<Longrightarrow> set (f x) \<inter> set (f y) = {}"
  shows "distinct (concat (map f xs))"
  using assms by (induction xs) auto

lemma distinct_grid_threads: "distinct (grid_threads l)"
  unfolding grid_threads_def
  by (intro distinct_concat_map distinct_upto) (auto simp: distinct_map inj_on_def)

lemma fold_no_writer:
  assumes "\<And>x C. x \<in> set xs \<Longrightarrow> U x C a = C a"
  shows "fold U xs C a = C a"
  using assms by (induction xs arbitrary: C) simp_all

lemma fold_unique_writer:
  assumes "distinct xs" and "x0 \<in> set xs"
    and "\<And>x C. x \<in> set xs \<Longrightarrow> x \<noteq> x0 \<Longrightarrow> U x C a = C a"
    and "\<And>C. U x0 C a = G (C a)"
  shows "fold U xs C a = G (C a)"
  using assms
proof (induction xs arbitrary: C)
  case Nil
  then show ?case by simp
next
  case (Cons x xs)
  show ?case
  proof (cases "x = x0")
    case True
    then have "x0 \<notin> set xs" using Cons.prems(1) by simp
    then have "fold U xs (U x0 C) a = U x0 C a"
      using Cons.prems(3) by (intro fold_no_writer) auto
    then show ?thesis using True Cons.prems(4) by simp
  next
    case False
    then have "fold U xs (U x C) a = G (U x C a)"
      using Cons.prems by (intro Cons.IH) auto
    then show ?thesis using False Cons.prems(3) [of x C] by simp
  qed
qed

section \<open>The scale kernel: frame\<close>

lemma scale_device_closed:
  "csrmm_scale_device l t m n b ld ord (C, tr) =
     Some (scale_C l m n b ld ord t C, tr @ scale_trace l m n ld ord t)"
  by (simp add: csrmm_scale_device_def scale_C_def scale_trace_def Let_def dense_index_def
        load_store_C_def algebra_simps)

lemma scale_closed:
  "csrmm_scale l m n b ld ord (C, tr) =
     Some (fold (scale_C l m n b ld ord) (grid_threads l) C,
           tr @ concat (map (scale_trace l m n ld ord) (grid_threads l)))"
  unfolding csrmm_scale_def by (rule run_grid_closed) (rule scale_device_closed)

lemma grid_thread_gidx:
  assumes "t \<in> set (grid_threads l)"
  shows "0 \<le> hipBlockIdx_x t * hipBlockDim_x l + hipThreadIdx_x t"
    and "0 \<le> hipBlockIdx_y t * hipBlockDim_y l + hipThreadIdx_y t"
  using assms by (auto simp: grid_threads_mem)

lemma in_regionI:
  "0 \<le> i \<Longrightarrow> i < m \<Longrightarrow> 0 \<le> j \<Longrightarrow> j < n \<Longrightarrow> in_region ord ld m n (dense_index ord ld i j)"
  unfolding in_region_def by blast

lemma scale_C_outside:
  assumes "t \<in> set (grid_threads l)" and "\<not> in_region ord ld m n a"
  shows "scale_C l m n b ld ord t C a = C a"
  using assms(2) grid_thread_gidx [OF assms(1)]
  by (auto simp: scale_C_def Let_def intro!: in_regionI)

lemma scale_trace_inside:
  assumes "t \<in> set (grid_threads l)" and "Write_C a \<in> set (scale_trace l m n ld ord t)"
  shows "in_region ord ld m n a"
  using assms(2) grid_thread_gidx [OF assms(1)]
  by (auto simp: scale_trace_def Let_def split: if_splits intro!: in_regionI)

text \<open>
  Claim C10. The scale kernel returns, and every element of the buffer that is not the
  element \<open>(i, j)\<close> of the logical \<open>m\<close> by \<open>n\<close> matrix for some \<open>i < m\<close> and \<open>j < n\<close>
  (the padding of a leading dimension included) keeps its value and is not written.
\<close>

theorem scale_frame:
  "\<exists>C' tr'. csrmm_scale l m n b ld ord (C, tr) = Some (C', tr') \<and>
     (\<forall>a. \<not> in_region ord ld m n a \<longrightarrow>
        C' a = C a \<and> (Write_C a \<in> set tr' \<longrightarrow> Write_C a \<in> set tr))"
proof -
  let ?C' = "fold (scale_C l m n b ld ord) (grid_threads l) C"
  let ?tr' = "tr @ concat (map (scale_trace l m n ld ord) (grid_threads l))"
  have "?C' a = C a" if "\<not> in_region ord ld m n a" for a
    using that by (intro fold_no_writer scale_C_outside)
  moreover have "Write_C a \<in> set tr" if "\<not> in_region ord ld m n a" "Write_C a \<in> set ?tr'" for a
    using that scale_trace_inside [of _ l a m n ld ord] by auto
  ultimately show ?thesis
    using scale_closed [of l m n b ld ord C tr] by blast
qed

theorem scale_frame_witness:
  "\<not> in_region rocsparse_order_column 2 1 1 1 \<and>
   (\<exists>C' tr'. csrmm_scale \<lparr>hipGridDim_x = 1, hipGridDim_y = 1, hipBlockDim_x = 2, hipBlockDim_y = 2\<rparr>
        1 1 3 2 rocsparse_order_column (\<lambda>a. 5, []) = Some (C', tr') \<and> C' 1 = 5)"
proof -
  have h: "\<not> in_region rocsparse_order_column 2 1 1 1"
    by (auto simp: in_region_def dense_index_def)
  show ?thesis
    using h scale_frame [of "\<lparr>hipGridDim_x = 1, hipGridDim_y = 1, hipBlockDim_x = 2, hipBlockDim_y = 2\<rparr>"
        1 1 3 2 rocsparse_order_column "\<lambda>a. 5" "[]"]
    by auto
qed

section \<open>Strided ranges and tiled sums\<close>

lemma fold_pair_trace:
  "fold (\<lambda>i s. (F i (fst s), snd s @ T i)) xs (v, tr) = (fold F xs v, tr @ concat (map T xs))"
  by (induction xs arbitrary: v tr) simp_all

lemma for_loop_closed:
  assumes "0 < step" and "\<And>i v tr. body i (v, tr) = Some (F i v, tr @ T i)"
  shows "for_loop i hi (\<lambda>x. True) step body (v, tr) =
         Some (fold F (strided i hi step) v, tr @ concat (map T (strided i hi step)))"
proof -
  have "body i s = Some (F i (fst s), snd s @ T i)" for i s
    using assms(2) [of i "fst s" "snd s"] by simp
  then show ?thesis
    using for_loop_fold [OF assms(1), of body "\<lambda>i s. (F i (fst s), snd s @ T i)"]
    by (simp add: fold_pair_trace)
qed

lemma fold_add_sum_list:
  "fold (\<lambda>i v. G i + v) xs (v::complex) = v + sum_list (map G xs)"
  by (induction xs arbitrary: v) (simp_all add: algebra_simps)

lemma strided_mem:
  "x \<in> set (strided i hi step) \<longleftrightarrow> 0 < step \<and> i \<le> x \<and> x < hi \<and> step dvd (x - i)"
proof (induction i hi step rule: strided.induct)
  case (1 i hi step)
  show ?case
  proof (cases "i < hi \<and> 0 < step")
    case True
    have shift: "step dvd (x - i) \<longleftrightarrow> step dvd (x - (i + step))"
    proof -
      have "x - i = (x - (i + step)) + step" by simp
      then show ?thesis by (metis dvd_add_triv_right_iff)
    qed
    have gap: "\<not> step dvd (x - i)" if "i < x" "x < i + step"
      using that True by (simp add: zdvd_not_zless)
    have "x \<in> set (strided i hi step) \<longleftrightarrow> x = i \<or> x \<in> set (strided (i + step) hi step)"
      using True by (subst strided.simps) auto
    also have "\<dots> \<longleftrightarrow> x = i \<or> (i + step \<le> x \<and> x < hi \<and> step dvd (x - (i + step)))"
      using True 1 by simp
    also have "\<dots> \<longleftrightarrow> 0 < step \<and> i \<le> x \<and> x < hi \<and> step dvd (x - i)"
    proof (cases "x = i")
      case True
      then show ?thesis using \<open>i < hi \<and> 0 < step\<close> by simp
    next
      case False
      show ?thesis
      proof (cases "i + step \<le> x")
        case True
        then show ?thesis using \<open>i < hi \<and> 0 < step\<close> shift False by auto
      next
        case False
        then show ?thesis using \<open>x \<noteq> i\<close> gap by (cases "i < x") auto
      qed
    qed
    finally show ?thesis .
  next
    case False
    then show ?thesis by (subst strided.simps) auto
  qed
qed

lemma strided_lower: "x \<in> set (strided i hi step) \<Longrightarrow> i \<le> x \<and> x < hi"
  by (simp add: strided_mem)

lemma distinct_strided: "distinct (strided i hi step)"
proof (induction i hi step rule: strided.induct)
  case (1 i hi step)
  show ?case
  proof (cases "i < hi \<and> 0 < step")
    case True
    then have "i \<notin> set (strided (i + step) hi step)"
      by (auto dest: strided_lower)
    then show ?thesis using True 1 by (subst strided.simps) simp
  next
    case False
    then show ?thesis by (subst strided.simps) auto
  qed
qed

lemma set_strided_unit: "set (strided i hi 1) = {i..<hi}"
  by (auto simp: strided_mem)

lemma sum_list_strided_unit:
  "sum_list (map G (strided i hi 1)) = (\<Sum>k\<in>{i..<hi}. (G k :: complex))"
  by (simp add: sum_list_distinct_conv_sum_set distinct_strided set_strided_unit)

lemma sum_shift_int:
  "(\<Sum>i\<in>{0..<w}. (G (j + i) :: complex)) = (\<Sum>k\<in>{j..<j + w}. G k)" for j w :: int
  by (rule sum.reindex_bij_witness [of _ "\<lambda>k. k - j" "\<lambda>i. j + i"]) auto

lemma sum_split_int:
  "a \<le> b \<Longrightarrow> b \<le> c \<Longrightarrow> (\<Sum>k\<in>{a..<b}. (G k :: complex)) + (\<Sum>k\<in>{b..<c}. G k) = (\<Sum>k\<in>{a..<c}. G k)"
  for a b c :: int
  by (simp add: sum.union_disjoint [symmetric] ivl_disj_un ivl_disj_int)

lemma sum_int_single: "(\<Sum>k\<in>{0..<1::int}. f k) = (f 0 :: complex)"
proof -
  have "{0..<1::int} = {0}" by auto
  then show ?thesis by simp
qed

lemma tiles_sum:
  assumes "0 < w" and "\<And>k. re \<le> k \<Longrightarrow> G k = 0"
  shows "sum_list (map (\<lambda>j. \<Sum>i\<in>{0..<w}. G (j + i)) (strided rs re w)) =
         (\<Sum>k\<in>{rs..<re}. (G k :: complex))"
  using assms
proof (induction rs re w rule: strided.induct)
  case (1 rs re w)
  show ?case
  proof (cases "rs < re")
    case True
    have IH: "sum_list (map (\<lambda>j. \<Sum>i\<in>{0..<w}. G (j + i)) (strided (rs + w) re w)) =
              (\<Sum>k\<in>{rs + w..<re}. G k)"
      using 1 True by simp
    have "(\<Sum>k\<in>{rs..<rs + w}. G k) + (\<Sum>k\<in>{rs + w..<re}. G k) = (\<Sum>k\<in>{rs..<re}. G k)"
    proof (cases "rs + w \<le> re")
      case True
      then show ?thesis
        using \<open>0 < w\<close> by (intro sum_split_int) auto
    next
      case False
      then have e: "{rs + w..<re} = {}" by simp
      have "(\<Sum>k\<in>{rs..<rs + w}. G k) = (\<Sum>k\<in>{rs..<re}. G k) + (\<Sum>k\<in>{re..<rs + w}. G k)"
        using False \<open>rs < re\<close> by (intro sum_split_int [symmetric]) auto
      moreover have "(\<Sum>k\<in>{re..<rs + w}. G k) = 0"
        using 1(3) by (intro sum.neutral) auto
      ultimately show ?thesis using e by simp
    qed
    then show ?thesis
      using True \<open>0 < w\<close> IH by (subst strided.simps) (simp add: sum_shift_int)
  next
    case False
    then show ?thesis by (subst strided.simps) simp
  qed
qed

section \<open>The row-parallel kernels in closed form\<close>

lemma is_pow2_pos: "is_pow2 n \<Longrightarrow> 0 < n"
  by (auto simp: is_pow2_def)

lemma is_pow2_and: "is_pow2 n \<Longrightarrow> x AND (n - 1) = x mod n"
  by (auto simp: is_pow2_def take_bit_eq_mod [symmetric] take_bit_eq_mask mask_eq_exp_minus_1)

lemma launch_ok_nwf:
  assumes "launch_ok BLOCKSIZE WF_SIZE l"
  shows "0 < WF_SIZE" and "0 < hipGridDim_x l * BLOCKSIZE div WF_SIZE"
proof -
  show w: "0 < WF_SIZE" using assms by (simp add: launch_ok_def is_pow2_pos)
  have "WF_SIZE \<le> BLOCKSIZE"
    using assms by (auto simp: launch_ok_def intro: zdvd_imp_le)
  moreover have "1 * BLOCKSIZE \<le> hipGridDim_x l * BLOCKSIZE"
    using assms by (intro mult_right_mono) (auto simp: launch_ok_def)
  ultimately have "WF_SIZE \<le> hipGridDim_x l * BLOCKSIZE" by simp
  then show "0 < hipGridDim_x l * BLOCKSIZE div WF_SIZE"
    using w by (simp add: pos_imp_zdiv_pos_iff)
qed

lemma load_shared_val_eq:
  "load_shared_val a row_end k = (if k < row_end then op_val (trans_A a) (csr_val a k) else 0)"
  by (simp add: load_shared_val_def op_val_def rocsparse_conj_def)

lemma nn_shared_col_eq:
  "nn_shared_col a row_end k = (if k < row_end then col_of a k else 0)"
  by (simp add: nn_shared_col_def col_of_def)

lemma nn_scan_step_eq:
  "nn_scan_step a sc sv colB i (v, tr) =
     (sv i * op_val (trans_B a) (buf_B a (sc i + colB)) + v, tr @ [Read_B (sc i + colB)])"
  by (simp add: nn_scan_step_def op_val_def rocsparse_conj_def rocsparse_fma_def)

lemma nn_slot_term:
  "load_shared_val a row_end k * op_val (trans_B a) (buf_B a (nn_shared_col a row_end k + colB)) =
     (if k < row_end then nn_term a colB k else 0)"
  by (simp add: load_shared_val_eq nn_shared_col_eq nn_term_def)

lemma nn_tile_closed:
  assumes "0 < WF_SIZE"
  shows "nn_tile WF_SIZE a lid col colB row_end j (v, tr) =
     Some ((if col < dim_N a
            then (\<Sum>i\<in>{0..<WF_SIZE}. if j + i < row_end then nn_term a colB (j + i) else 0) + v
            else v),
           tr @ nn_tile_trace WF_SIZE a lid col colB row_end j)"
proof (cases "col < dim_N a")
  case True
  have "for_loop 0 WF_SIZE (\<lambda>x. True) 1
          (\<lambda>i s'. Some (nn_scan_step a (\<lambda>i. nn_shared_col a row_end (j + i))
                          (\<lambda>i. load_shared_val a row_end (j + i)) colB i s'))
          (v, tr @ load_trace row_end (j + lid)) =
        Some (fold (\<lambda>i v. (if j + i < row_end then nn_term a colB (j + i) else 0) + v)
                (strided 0 WF_SIZE 1) v,
              (tr @ load_trace row_end (j + lid)) @
              concat (map (\<lambda>i. [Read_B (nn_shared_col a row_end (j + i) + colB)])
                (strided 0 WF_SIZE 1)))"
    by (rule for_loop_closed) (simp_all add: nn_scan_step_eq nn_slot_term)
  then show ?thesis
    using True
    by (simp add: nn_tile_def nn_tile_trace_def fold_add_sum_list
          sum_list_strided_unit add.commute [of v] concat_map_singleton)
next
  case False
  then show ?thesis
    by (simp add: nn_tile_def nn_tile_trace_def for_loop_cond_False)
qed

lemma nn_tiles_closed:
  assumes "0 < WF_SIZE"
  shows "for_loop row_start row_end (\<lambda>j. True) WF_SIZE (nn_tile WF_SIZE a lid col colB row_end) (0, tr) =
     Some ((if col < dim_N a then (\<Sum>k\<in>{row_start..<row_end}. nn_term a colB k) else 0),
           tr @ concat (map (nn_tile_trace WF_SIZE a lid col colB row_end)
                          (strided row_start row_end WF_SIZE)))"
proof -
  let ?G = "\<lambda>k. if k < row_end then nn_term a colB k else 0"
  let ?F = "\<lambda>j v. (if col < dim_N a then (\<Sum>i\<in>{0..<WF_SIZE}. ?G (j + i)) + v else v)"
  have "for_loop row_start row_end (\<lambda>j. True) WF_SIZE (nn_tile WF_SIZE a lid col colB row_end) (0, tr) =
        Some (fold ?F (strided row_start row_end WF_SIZE) 0,
              tr @ concat (map (nn_tile_trace WF_SIZE a lid col colB row_end)
                             (strided row_start row_end WF_SIZE)))"
    using assms by (intro for_loop_closed) (simp_all add: nn_tile_closed)
  moreover have "fold ?F (strided row_start row_end WF_SIZE) 0 =
                 (if col < dim_N a then (\<Sum>k\<in>{row_start..<row_end}. nn_term a colB k) else 0)"
  proof (cases "col < dim_N a")
    case True
    have "sum_list (map (\<lambda>j. \<Sum>i\<in>{0..<WF_SIZE}. ?G (j + i)) (strided row_start row_end WF_SIZE)) =
          (\<Sum>k\<in>{row_start..<row_end}. ?G k)"
      using assms by (intro tiles_sum) auto
    then show ?thesis using True by (simp add: fold_add_sum_list)
  next
    case False
    have "fold (\<lambda>j v. v) xs (0::complex) = 0" for xs :: "int list"
      by (induction xs) simp_all
    then show ?thesis using False by simp
  qed
  ultimately show ?thesis by simp
qed

lemma final_store_eq:
  "final_store a row col sumv (C, tr) =
     (C(dense_index (order a) (ldc a) row col :=
          store_value a sumv (C (dense_index (order a) (ldc a) row col))),
      tr @ store_trace a (dense_index (order a) (ldc a) row col))"
  by (simp add: final_store_def store_value_def store_trace_def dense_index_def store_C_def
        load_store_C_def rocsparse_fma_def)

lemma nn_row_closed:
  assumes "0 < WF_SIZE"
  shows "nn_row WF_SIZE a lid col colB row (C, tr) =
     Some (nn_row_C a col colB row C, tr @ nn_row_trace WF_SIZE a lid col colB row)"
  using nn_tiles_closed [OF assms, of "row_begin a row" "row_finish a row" a lid col colB
      "tr @ [Read_row_ptr row, Read_row_ptr (row + 1)]"]
  by (simp add: nn_row_def nn_row_C_def nn_row_trace_def nn_row_sum_def final_store_eq
        row_begin_def row_finish_def Let_def)

lemma nn_device_closed:
  assumes "launch_ok BLOCKSIZE WF_SIZE l"
  shows "csrmmnn_general_device BLOCKSIZE WF_SIZE l t a (C, tr) =
     Some (nn_thread_C BLOCKSIZE WF_SIZE l a t C, tr @ nn_thread_trace BLOCKSIZE WF_SIZE l a t)"
proof -
  have pow: "is_pow2 WF_SIZE" using assms by (simp add: launch_ok_def)
  note w = launch_ok_nwf [OF assms]
  define gid where "gid = hipBlockIdx_x t * BLOCKSIZE + hipThreadIdx_x t"
  define col where "col = gid mod WF_SIZE + hipBlockIdx_y t * WF_SIZE"
  have "for_loop (gid div WF_SIZE) (dim_M a) (\<lambda>row. True) (hipGridDim_x l * BLOCKSIZE div WF_SIZE)
          (nn_row WF_SIZE a (gid mod WF_SIZE) col (col * ldb a)) (C, tr) =
        Some (fold (nn_row_C a col (col * ldb a))
                (strided (gid div WF_SIZE) (dim_M a) (hipGridDim_x l * BLOCKSIZE div WF_SIZE)) C,
              tr @ concat (map (nn_row_trace WF_SIZE a (gid mod WF_SIZE) col (col * ldb a))
                (strided (gid div WF_SIZE) (dim_M a) (hipGridDim_x l * BLOCKSIZE div WF_SIZE))))"
    by (rule for_loop_closed [OF w(2)]) (rule nn_row_closed [OF w(1)])
  then show ?thesis
    using w(1)
    unfolding csrmmnn_general_device_def nn_thread_C_def nn_thread_trace_def Let_def
      is_pow2_and [OF pow] gid_def col_def
    by simp
qed

lemma nn_closed:
  assumes "launch_ok BLOCKSIZE WF_SIZE l"
  shows "csrmmnn BLOCKSIZE WF_SIZE l a (C, tr) =
     Some (fold (nn_thread_C BLOCKSIZE WF_SIZE l a) (grid_threads l) C,
           tr @ concat (map (nn_thread_trace BLOCKSIZE WF_SIZE l a) (grid_threads l)))"
  unfolding csrmmnn_def by (rule run_grid_closed) (rule nn_device_closed [OF assms])

lemma op_val_zero [simp]: "op_val m 0 = 0"
  by (simp add: op_val_def)

lemma nt_shared_col_eq:
  "nt_shared_col a row_end k = (if k < row_end then ldb a * col_of a k else 0)"
  by (simp add: nt_shared_col_def col_of_def)

lemma nt_scan_step_eq:
  "nt_scan_step a sc sv col ncol i (v, tr) =
     (sv i * op_val (trans_B a) (if col < ncol then buf_B a (col + sc i) else 0) + v,
      tr @ (if col < ncol then [Read_B (col + sc i)] else []))"
  by (simp add: nt_scan_step_def op_val_def rocsparse_conj_def rocsparse_fma_def)

lemma nt_slot_term:
  "load_shared_val a row_end k *
     op_val (trans_B a) (if col < ncol then buf_B a (col + nt_shared_col a row_end k) else 0) =
     (if k < row_end \<and> col < ncol then nt_term a col k else 0)"
  by (simp add: load_shared_val_eq nt_shared_col_eq nt_term_def)

lemma nt_tile_closed:
  assumes "0 < WF_SIZE"
  shows "nt_tile WF_SIZE a lid col ncol row_end j (v, tr) =
     Some ((\<Sum>i\<in>{0..<WF_SIZE}. if j + i < row_end \<and> col < ncol then nt_term a col (j + i) else 0) + v,
           tr @ nt_tile_trace WF_SIZE a lid col ncol row_end j)"
proof -
  have "for_loop 0 WF_SIZE (\<lambda>x. True) 1
          (\<lambda>i s'. Some (nt_scan_step a (\<lambda>i. nt_shared_col a row_end (j + i))
                          (\<lambda>i. load_shared_val a row_end (j + i)) col ncol i s'))
          (v, tr @ load_trace row_end (j + lid)) =
        Some (fold (\<lambda>i v. (if j + i < row_end \<and> col < ncol then nt_term a col (j + i) else 0) + v)
                (strided 0 WF_SIZE 1) v,
              (tr @ load_trace row_end (j + lid)) @
              concat (map (\<lambda>i. if col < ncol
                                then [Read_B (col + nt_shared_col a row_end (j + i))] else [])
                (strided 0 WF_SIZE 1)))"
    by (rule for_loop_closed) (simp_all add: nt_scan_step_eq nt_slot_term)
  then show ?thesis
    by (simp add: nt_tile_def nt_tile_trace_def fold_add_sum_list
          sum_list_strided_unit add.commute [of v])
qed

lemma nt_tiles_closed:
  assumes "0 < WF_SIZE"
  shows "for_loop row_start row_end (\<lambda>j. True) WF_SIZE (nt_tile WF_SIZE a lid col ncol row_end) (0, tr) =
     Some ((if col < ncol then (\<Sum>k\<in>{row_start..<row_end}. nt_term a col k) else 0),
           tr @ concat (map (nt_tile_trace WF_SIZE a lid col ncol row_end)
                          (strided row_start row_end WF_SIZE)))"
proof -
  let ?G = "\<lambda>k. if k < row_end \<and> col < ncol then nt_term a col k else 0"
  let ?F = "\<lambda>j v. (\<Sum>i\<in>{0..<WF_SIZE}. ?G (j + i)) + v"
  have "for_loop row_start row_end (\<lambda>j. True) WF_SIZE (nt_tile WF_SIZE a lid col ncol row_end) (0, tr) =
        Some (fold ?F (strided row_start row_end WF_SIZE) 0,
              tr @ concat (map (nt_tile_trace WF_SIZE a lid col ncol row_end)
                             (strided row_start row_end WF_SIZE)))"
    using assms by (intro for_loop_closed) (simp_all add: nt_tile_closed)
  moreover have "sum_list (map (\<lambda>j. \<Sum>i\<in>{0..<WF_SIZE}. ?G (j + i)) (strided row_start row_end WF_SIZE)) =
          (\<Sum>k\<in>{row_start..<row_end}. ?G k)"
    using assms by (intro tiles_sum) auto
  ultimately show ?thesis by (simp add: fold_add_sum_list)
qed

lemma nt_col_tile_closed:
  assumes "0 < WF_SIZE"
  shows "nt_col_tile WF_SIZE a lid ncol row (row_begin a row) (row_finish a row) l (C, tr) =
     Some (nt_col_tile_C a lid ncol row l C, tr @ nt_col_tile_trace WF_SIZE a lid ncol row l)"
  using nt_tiles_closed [OF assms, of "row_begin a row" "row_finish a row" a lid "l + lid" ncol tr]
  by (simp add: nt_col_tile_def nt_col_tile_C_def nt_col_tile_trace_def nt_row_sum_def final_store_eq
        Let_def)

lemma nt_device_closed:
  assumes "launch_ok BLOCKSIZE WF_SIZE l"
  shows "csrmmnt_general_device BLOCKSIZE WF_SIZE l t offset ncol a (C, tr) =
     Some (nt_thread_C BLOCKSIZE WF_SIZE a offset ncol t C,
           tr @ nt_thread_trace BLOCKSIZE WF_SIZE a offset ncol t)"
proof -
  have pow: "is_pow2 WF_SIZE" using assms by (simp add: launch_ok_def)
  note w = launch_ok_nwf [OF assms]
  define row where "row = (hipBlockIdx_x t * BLOCKSIZE + hipThreadIdx_x t) div WF_SIZE"
  define lid where "lid = hipThreadIdx_x t mod WF_SIZE"
  have "for_loop offset ncol (\<lambda>l. True) WF_SIZE
          (nt_col_tile WF_SIZE a lid ncol row (row_begin a row) (row_finish a row))
          (C, tr @ [Read_row_ptr row, Read_row_ptr (row + 1)]) =
        Some (fold (nt_col_tile_C a lid ncol row) (strided offset ncol WF_SIZE) C,
              (tr @ [Read_row_ptr row, Read_row_ptr (row + 1)]) @
              concat (map (nt_col_tile_trace WF_SIZE a lid ncol row) (strided offset ncol WF_SIZE)))"
    by (rule for_loop_closed [OF w(1)]) (rule nt_col_tile_closed [OF w(1)])
  then show ?thesis
    using w(1)
    unfolding csrmmnt_general_device_def nt_thread_C_def nt_thread_trace_def Let_def
      is_pow2_and [OF pow] row_def lid_def row_begin_def row_finish_def
    by simp
qed

lemma nt_closed:
  assumes "launch_ok BLOCKSIZE WF_SIZE l"
  shows "csrmmnt BLOCKSIZE WF_SIZE l offset ncol a (C, tr) =
     Some (fold (nt_thread_C BLOCKSIZE WF_SIZE a offset ncol) (grid_threads l) C,
           tr @ concat (map (nt_thread_trace BLOCKSIZE WF_SIZE a offset ncol) (grid_threads l)))"
  unfolding csrmmnt_def by (rule run_grid_closed) (rule nt_device_closed [OF assms])

section \<open>The transposed kernels in closed form\<close>

lemma apply_adds_append: "apply_adds (us @ vs) C = apply_adds vs (apply_adds us C)"
  by (simp add: apply_adds_def)

lemma apply_adds_concat:
  "fold (\<lambda>i. apply_adds (A i)) xs C = apply_adds (concat (map A xs)) C"
  by (induction xs arbitrary: C) (simp_all add: apply_adds_append, simp add: apply_adds_def)

lemma apply_adds_at:
  "apply_adds us C x = C x + sum_list (map snd (filter (\<lambda>u. fst u = x) us))"
  by (induction us arbitrary: C) (simp_all add: apply_adds_def)

lemma for_loop_adds:
  assumes "0 < step" and "\<And>i C tr. body i (C, tr) = Some (apply_adds (A i) C, tr @ T i)"
  shows "for_loop i hi (\<lambda>x. True) step body (C, tr) =
         Some (apply_adds (concat (map A (strided i hi step))) C,
               tr @ concat (map T (strided i hi step)))"
  using for_loop_closed [OF assms(1), of body "\<lambda>i. apply_adds (A i)" T] assms(2)
  by (simp add: apply_adds_concat)

lemma atomicAdd_eq:
  "atomicAdd x v (C, tr) = (apply_adds [(x, v)] C, tr @ [AtomicAdd_C x])"
  by (simp add: atomicAdd_def apply_adds_def)

lemma scatter_entry_closed:
  "scatter_entry WF_SIZE a bidy sB j (C, tr) =
     Some (apply_adds (scatter_adds WF_SIZE a bidy sB j) C, tr @ scatter_trace WF_SIZE a bidy j)"
proof -
  let ?val = "alpha a * op_val (trans_A a) (csr_val a j)"
  let ?n = "min WF_SIZE (dim_N a - bidy * WF_SIZE)"
  let ?x = "\<lambda>i. dense_index (order a) (ldc a) (col_of a j) (i + bidy * WF_SIZE)"
  have loop: "for_loop 0 ?n (\<lambda>x. True) 1 (\<lambda>i s'. Some (atomicAdd (?x i) (?val * sB i) s'))
          (C, tr @ [Read_col_ind j, Read_val j]) =
        Some (apply_adds (concat (map (\<lambda>i. [(?x i, ?val * sB i)]) (strided 0 ?n 1))) C,
              (tr @ [Read_col_ind j, Read_val j]) @
              concat (map (\<lambda>i. [AtomicAdd_C (?x i)]) (strided 0 ?n 1)))"
    by (rule for_loop_adds) (simp_all add: atomicAdd_eq)
  have val: "(if trans_A a = rocsparse_operation_conjugate_transpose
              then alpha a * rocsparse_conj (csr_val a j) else alpha a * csr_val a j) = ?val"
    by (simp add: op_val_def rocsparse_conj_def)
  show ?thesis
  proof (cases "order a = rocsparse_order_column")
    case True
    then show ?thesis
      using loop
      by (simp add: scatter_entry_def scatter_adds_def scatter_trace_def Let_def val
            for_loop_cond_bound col_of_def concat_map_singleton dense_index_def)
  next
    case False
    then show ?thesis
      using loop
      by (simp add: scatter_entry_def scatter_adds_def scatter_trace_def Let_def val
            for_loop_cond_bound col_of_def concat_map_singleton dense_index_def)
  qed
qed

lemma tn_row_closed:
  assumes "0 < WF_SIZE"
  shows "tn_row WF_SIZE a bidy lid row (C, tr) =
     Some (apply_adds (row_adds WF_SIZE a bidy (tn_shared_B WF_SIZE a bidy row) lid row) C,
           tr @ row_trace WF_SIZE a bidy (row + (lid + bidy * WF_SIZE) * ldb a) lid row)"
proof -
  have "for_loop (row_begin a row + lid) (row_finish a row) (\<lambda>j. True) WF_SIZE
          (scatter_entry WF_SIZE a bidy (tn_shared_B WF_SIZE a bidy row))
          (C, tr @ [Read_row_ptr row, Read_row_ptr (row + 1)] @
                 (if lid + bidy * WF_SIZE < dim_N a then [Read_B (row + (lid + bidy * WF_SIZE) * ldb a)] else [])) =
        Some (apply_adds (concat (map (scatter_adds WF_SIZE a bidy (tn_shared_B WF_SIZE a bidy row))
                 (strided (row_begin a row + lid) (row_finish a row) WF_SIZE))) C,
              (tr @ [Read_row_ptr row, Read_row_ptr (row + 1)] @
                 (if lid + bidy * WF_SIZE < dim_N a then [Read_B (row + (lid + bidy * WF_SIZE) * ldb a)] else [])) @
              concat (map (scatter_trace WF_SIZE a bidy)
                 (strided (row_begin a row + lid) (row_finish a row) WF_SIZE)))"
    by (rule for_loop_adds [OF assms]) (rule scatter_entry_closed)
  then show ?thesis
    unfolding tn_row_def row_adds_def row_trace_def Let_def row_begin_def row_finish_def
    by simp
qed

lemma tt_row_closed:
  assumes "0 < WF_SIZE"
  shows "tt_row WF_SIZE a bidy lid row (C, tr) =
     Some (apply_adds (row_adds WF_SIZE a bidy (tt_shared_B WF_SIZE a bidy row) lid row) C,
           tr @ row_trace WF_SIZE a bidy (ldb a * row + (lid + bidy * WF_SIZE)) lid row)"
proof -
  have "for_loop (row_begin a row + lid) (row_finish a row) (\<lambda>j. True) WF_SIZE
          (scatter_entry WF_SIZE a bidy (tt_shared_B WF_SIZE a bidy row))
          (C, tr @ [Read_row_ptr row, Read_row_ptr (row + 1)] @
                 (if lid + bidy * WF_SIZE < dim_N a then [Read_B (ldb a * row + (lid + bidy * WF_SIZE))] else [])) =
        Some (apply_adds (concat (map (scatter_adds WF_SIZE a bidy (tt_shared_B WF_SIZE a bidy row))
                 (strided (row_begin a row + lid) (row_finish a row) WF_SIZE))) C,
              (tr @ [Read_row_ptr row, Read_row_ptr (row + 1)] @
                 (if lid + bidy * WF_SIZE < dim_N a then [Read_B (ldb a * row + (lid + bidy * WF_SIZE))] else [])) @
              concat (map (scatter_trace WF_SIZE a bidy)
                 (strided (row_begin a row + lid) (row_finish a row) WF_SIZE)))"
    by (rule for_loop_adds [OF assms]) (rule scatter_entry_closed)
  then show ?thesis
    unfolding tt_row_def row_adds_def row_trace_def Let_def row_begin_def row_finish_def
    by simp
qed

lemma tn_device_closed:
  assumes "launch_ok BLOCKSIZE WF_SIZE l"
  shows "csrmmtn_general_device BLOCKSIZE WF_SIZE l t a (C, tr) =
     Some (apply_adds (tn_thread_adds BLOCKSIZE WF_SIZE l a t) C,
           tr @ tn_thread_trace BLOCKSIZE WF_SIZE l a t)"
proof -
  have pow: "is_pow2 WF_SIZE" using assms by (simp add: launch_ok_def)
  note w = launch_ok_nwf [OF assms]
  define gid where "gid = hipBlockIdx_x t * BLOCKSIZE + hipThreadIdx_x t"
  define bidy where "bidy = hipBlockIdx_y t"
  let ?rows = "strided (gid div WF_SIZE) (dim_K a) (hipGridDim_x l * BLOCKSIZE div WF_SIZE)"
  have "for_loop (gid div WF_SIZE) (dim_K a) (\<lambda>row. True) (hipGridDim_x l * BLOCKSIZE div WF_SIZE)
          (tn_row WF_SIZE a bidy (gid mod WF_SIZE)) (C, tr) =
        Some (apply_adds (concat (map (\<lambda>row. row_adds WF_SIZE a bidy (tn_shared_B WF_SIZE a bidy row)
                                          (gid mod WF_SIZE) row) ?rows)) C,
              tr @ concat (map (\<lambda>row. row_trace WF_SIZE a bidy
                                  (row + (gid mod WF_SIZE + bidy * WF_SIZE) * ldb a) (gid mod WF_SIZE) row)
                             ?rows))"
    by (rule for_loop_adds [OF w(2)]) (rule tn_row_closed [OF w(1)])
  then show ?thesis
    using w(1)
    unfolding csrmmtn_general_device_def tn_thread_adds_def tn_thread_trace_def Let_def
      is_pow2_and [OF pow] gid_def bidy_def thread_rows_def thread_lid_def
    by simp
qed

lemma tt_device_closed:
  assumes "launch_ok BLOCKSIZE WF_SIZE l"
  shows "csrmmtt_general_device BLOCKSIZE WF_SIZE l t a (C, tr) =
     Some (apply_adds (tt_thread_adds BLOCKSIZE WF_SIZE l a t) C,
           tr @ tt_thread_trace BLOCKSIZE WF_SIZE l a t)"
proof -
  have pow: "is_pow2 WF_SIZE" using assms by (simp add: launch_ok_def)
  note w = launch_ok_nwf [OF assms]
  define gid where "gid = hipBlockIdx_x t * BLOCKSIZE + hipThreadIdx_x t"
  define bidy where "bidy = hipBlockIdx_y t"
  let ?rows = "strided (gid div WF_SIZE) (dim_K a) (hipGridDim_x l * BLOCKSIZE div WF_SIZE)"
  have "for_loop (gid div WF_SIZE) (dim_K a) (\<lambda>row. True) (hipGridDim_x l * BLOCKSIZE div WF_SIZE)
          (tt_row WF_SIZE a bidy (gid mod WF_SIZE)) (C, tr) =
        Some (apply_adds (concat (map (\<lambda>row. row_adds WF_SIZE a bidy (tt_shared_B WF_SIZE a bidy row)
                                          (gid mod WF_SIZE) row) ?rows)) C,
              tr @ concat (map (\<lambda>row. row_trace WF_SIZE a bidy
                                  (ldb a * row + (gid mod WF_SIZE + bidy * WF_SIZE)) (gid mod WF_SIZE) row)
                             ?rows))"
    by (rule for_loop_adds [OF w(2)]) (rule tt_row_closed [OF w(1)])
  then show ?thesis
    using w(1)
    unfolding csrmmtt_general_device_def tt_thread_adds_def tt_thread_trace_def Let_def
      is_pow2_and [OF pow] gid_def bidy_def thread_rows_def thread_lid_def
    by simp
qed

lemma run_grid_adds:
  assumes "\<And>t C tr. t \<in> set (grid_threads l) \<Longrightarrow> thr t (C, tr) = Some (apply_adds (A t) C, tr @ TT t)"
  shows "run_grid l thr (C, tr) =
         Some (apply_adds (concat (map A (grid_threads l))) C,
               tr @ concat (map TT (grid_threads l)))"
  using run_grid_closed [of l thr "\<lambda>t. apply_adds (A t)" TT C tr] assms
  by (simp add: apply_adds_concat)

lemma tn_closed:
  assumes "launch_ok BLOCKSIZE WF_SIZE l"
  shows "csrmmtn BLOCKSIZE WF_SIZE l a (C, tr) =
     Some (apply_adds (concat (map (tn_thread_adds BLOCKSIZE WF_SIZE l a) (grid_threads l))) C,
           tr @ concat (map (tn_thread_trace BLOCKSIZE WF_SIZE l a) (grid_threads l)))"
  unfolding csrmmtn_def by (rule run_grid_adds) (rule tn_device_closed [OF assms])

lemma tt_closed:
  assumes "launch_ok BLOCKSIZE WF_SIZE l"
  shows "csrmmtt BLOCKSIZE WF_SIZE l a (C, tr) =
     Some (apply_adds (concat (map (tt_thread_adds BLOCKSIZE WF_SIZE l a) (grid_threads l))) C,
           tr @ concat (map (tt_thread_trace BLOCKSIZE WF_SIZE l a) (grid_threads l)))"
  unfolding csrmmtt_def by (rule run_grid_adds) (rule tt_device_closed [OF assms])

section \<open>Threads and the elements they own\<close>

lemma dense_index_inj:
  assumes "ld_ok ord ld m n"
    and "0 \<le> i" "i < m" "0 \<le> j" "j < n" "0 \<le> i'" "i' < m" "0 \<le> j'" "j' < n"
    and "dense_index ord ld i j = dense_index ord ld i' j'"
  shows "i = i' \<and> j = j'"
proof (cases "ord = rocsparse_order_column")
  case True
  then have ld: "i < ld" "i' < ld" and eq: "i + j * ld = i' + j' * ld"
    using assms by (auto simp: ld_ok_def dense_index_def)
  have "(i + j * ld) mod ld = i" "(i' + j' * ld) mod ld = i'"
    using ld assms by simp_all
  then have "i = i'" using eq by simp
  moreover have "0 < ld" using ld assms by linarith
  ultimately show ?thesis using eq by simp
next
  case False
  then have ld: "j < ld" "j' < ld" and eq: "i * ld + j = i' * ld + j'"
    using assms by (auto simp: ld_ok_def dense_index_def)
  have "(i * ld + j) mod ld = j" "(i' * ld + j') mod ld = j'"
    using ld assms by simp_all
  then have "j = j'" using eq by simp
  moreover have "0 < ld" using ld assms by linarith
  ultimately show ?thesis using eq by simp
qed

lemma int_div_less:
  fixes m n q :: int
  assumes "0 < q" "m < n * q"
  shows "m div q < n"
proof -
  have "m div q * q \<le> m"
    using assms(1) by (simp add: minus_mod_eq_div_mult [symmetric])
  then have "m div q * q < n * q" using assms(2) by simp
  then show ?thesis using assms(1) by (simp add: mult_less_cancel_right)
qed

lemma launch_ok_total:
  assumes "launch_ok BLOCKSIZE WF_SIZE l"
  shows "(hipGridDim_x l * BLOCKSIZE div WF_SIZE) * WF_SIZE = hipGridDim_x l * BLOCKSIZE"
  using assms by (auto simp: launch_ok_def)

lemma thread_gid_range:
  assumes "launch_ok BLOCKSIZE WF_SIZE l" and "t \<in> set (grid_threads l)"
  shows "0 \<le> thread_gid BLOCKSIZE t" and "thread_gid BLOCKSIZE t < hipGridDim_x l * BLOCKSIZE"
proof -
  have b: "0 \<le> hipBlockIdx_x t" "hipBlockIdx_x t + 1 \<le> hipGridDim_x l"
    "0 \<le> hipThreadIdx_x t" "hipThreadIdx_x t < BLOCKSIZE" "0 < BLOCKSIZE"
    using assms by (auto simp: grid_threads_mem launch_ok_def)
  show "0 \<le> thread_gid BLOCKSIZE t"
    using b by (simp add: thread_gid_def)
  have "(hipBlockIdx_x t + 1) * BLOCKSIZE \<le> hipGridDim_x l * BLOCKSIZE"
    using b by (intro mult_right_mono) auto
  then show "thread_gid BLOCKSIZE t < hipGridDim_x l * BLOCKSIZE"
    using b by (simp add: thread_gid_def algebra_simps)
qed

lemma thread_wave_range:
  assumes "launch_ok BLOCKSIZE WF_SIZE l" and "t \<in> set (grid_threads l)"
  shows "0 \<le> thread_gid BLOCKSIZE t div WF_SIZE"
    and "thread_gid BLOCKSIZE t div WF_SIZE < hipGridDim_x l * BLOCKSIZE div WF_SIZE"
    and "0 \<le> thread_gid BLOCKSIZE t mod WF_SIZE"
    and "thread_gid BLOCKSIZE t mod WF_SIZE < WF_SIZE"
proof -
  note w = launch_ok_nwf [OF assms(1)]
  note g = thread_gid_range [OF assms]
  show "0 \<le> thread_gid BLOCKSIZE t div WF_SIZE"
    using g(1) w(1) by (simp add: pos_imp_zdiv_nonneg_iff)
  have "thread_gid BLOCKSIZE t < (hipGridDim_x l * BLOCKSIZE div WF_SIZE) * WF_SIZE"
    using g(2) launch_ok_total [OF assms(1)] by simp
  then show "thread_gid BLOCKSIZE t div WF_SIZE < hipGridDim_x l * BLOCKSIZE div WF_SIZE"
    using w(1) by (intro int_div_less)
  show "0 \<le> thread_gid BLOCKSIZE t mod WF_SIZE" "thread_gid BLOCKSIZE t mod WF_SIZE < WF_SIZE"
    using w(1) by simp_all
qed

lemma thread_eqI:
  assumes "launch_ok BLOCKSIZE WF_SIZE l"
    and "t \<in> set (grid_threads l)" "t' \<in> set (grid_threads l)"
    and "thread_gid BLOCKSIZE t = thread_gid BLOCKSIZE t'"
    and "hipBlockIdx_y t = hipBlockIdx_y t'"
  shows "t = t'"
proof -
  have b: "0 \<le> hipThreadIdx_x t" "hipThreadIdx_x t < BLOCKSIZE"
    "0 \<le> hipThreadIdx_x t'" "hipThreadIdx_x t' < BLOCKSIZE"
    "hipThreadIdx_y t = 0" "hipThreadIdx_y t' = 0"
    using assms by (auto simp: grid_threads_mem launch_ok_def)
  have m: "thread_gid BLOCKSIZE t mod BLOCKSIZE = hipThreadIdx_x t"
    "thread_gid BLOCKSIZE t' mod BLOCKSIZE = hipThreadIdx_x t'"
    using b by (simp_all add: thread_gid_def)
  have tx: "hipThreadIdx_x t = hipThreadIdx_x t'"
    using m assms(4) by metis
  have d: "thread_gid BLOCKSIZE t div BLOCKSIZE = hipBlockIdx_x t"
    "thread_gid BLOCKSIZE t' div BLOCKSIZE = hipBlockIdx_x t'"
    using b by (simp_all add: thread_gid_def)
  have "hipBlockIdx_x t = hipBlockIdx_x t'"
    using d assms(4) by metis
  then show ?thesis
    using tx b assms(5) by (intro thread_id.equality) simp_all
qed

lemma thread_exists:
  assumes "launch_ok BLOCKSIZE WF_SIZE l"
    and "0 \<le> g" "g < hipGridDim_x l * BLOCKSIZE" "0 \<le> b" "b < hipGridDim_y l"
  shows "\<exists>t\<in>set (grid_threads l). thread_gid BLOCKSIZE t = g \<and> hipBlockIdx_y t = b"
proof -
  have bs: "0 < BLOCKSIZE" "hipBlockDim_x l = BLOCKSIZE" "hipBlockDim_y l = 1"
    using assms(1) by (auto simp: launch_ok_def)
  let ?t = "\<lparr>hipBlockIdx_x = g div BLOCKSIZE, hipBlockIdx_y = b,
             hipThreadIdx_x = g mod BLOCKSIZE, hipThreadIdx_y = 0\<rparr>"
  have "g div BLOCKSIZE < hipGridDim_x l"
    using assms(3) bs(1) by (intro int_div_less)
  moreover have "0 \<le> g div BLOCKSIZE"
    using assms(2) bs(1) by (simp add: pos_imp_zdiv_nonneg_iff)
  ultimately have "?t \<in> set (grid_threads l)"
    using bs assms by (simp add: grid_threads_mem)
  moreover have "thread_gid BLOCKSIZE ?t = g" by (simp add: thread_gid_def)
  ultimately show ?thesis by (intro bexI [of _ ?t]) simp_all
qed

lemma wave_rows_mem:
  assumes "0 < nwf" "0 \<le> w" "w < nwf" "0 \<le> i"
  shows "i \<in> set (strided w m nwf) \<longleftrightarrow> i < m \<and> w = i mod nwf"
proof
  assume "i \<in> set (strided w m nwf)"
  then have h: "w \<le> i" "i < m" "nwf dvd (i - w)" by (simp_all add: strided_mem)
  then have "(i - w) mod nwf = 0" by simp
  then have "i mod nwf = w mod nwf" by (metis h(3) mod_eq_dvd_iff)
  then show "i < m \<and> w = i mod nwf" using h assms by simp
next
  assume h: "i < m \<and> w = i mod nwf"
  then have "w \<le> i" using assms by (simp add: zmod_le_nonneg_dividend)
  moreover have "nwf dvd (i - w)" using h by (simp add: dvd_minus_mod)
  ultimately show "i \<in> set (strided w m nwf)" using h assms by (simp add: strided_mem)
qed

lemma nn_thread_C_alt:
  "nn_thread_C BLOCKSIZE WF_SIZE l a t C =
     fold (nn_row_C a (thread_col BLOCKSIZE WF_SIZE t) (thread_col BLOCKSIZE WF_SIZE t * ldb a))
       (strided (thread_gid BLOCKSIZE t div WF_SIZE) (dim_M a)
          (hipGridDim_x l * BLOCKSIZE div WF_SIZE)) C"
  by (simp add: nn_thread_C_def thread_col_def thread_gid_def Let_def)

lemma nn_row_C_other:
  "col < dim_N a \<longrightarrow> x \<noteq> dense_index (order a) (ldc a) row col \<Longrightarrow> nn_row_C a col colB row C x = C x"
  by (simp add: nn_row_C_def)

lemma nn_row_C_at:
  "col < dim_N a \<Longrightarrow>
   nn_row_C a col colB row C (dense_index (order a) (ldc a) row col) =
     store_value a (nn_row_sum a colB row) (C (dense_index (order a) (ldc a) row col))"
  by (simp add: nn_row_C_def)

lemma thread_col_range:
  assumes "launch_ok BLOCKSIZE WF_SIZE l" and "t \<in> set (grid_threads l)"
  shows "0 \<le> thread_col BLOCKSIZE WF_SIZE t"
    and "thread_col BLOCKSIZE WF_SIZE t mod WF_SIZE = thread_gid BLOCKSIZE t mod WF_SIZE"
    and "thread_col BLOCKSIZE WF_SIZE t div WF_SIZE = hipBlockIdx_y t"
proof -
  note r = thread_wave_range [OF assms]
  have b: "0 \<le> hipBlockIdx_y t" using assms(2) by (simp add: grid_threads_mem)
  show "0 \<le> thread_col BLOCKSIZE WF_SIZE t"
    using r b launch_ok_nwf(1) [OF assms(1)] by (simp add: thread_col_def)
  show "thread_col BLOCKSIZE WF_SIZE t mod WF_SIZE = thread_gid BLOCKSIZE t mod WF_SIZE"
    by (simp add: thread_col_def)
  show "thread_col BLOCKSIZE WF_SIZE t div WF_SIZE = hipBlockIdx_y t"
    using r by (simp add: thread_col_def)
qed

lemma thread_gid_split:
  "thread_gid BLOCKSIZE t = (thread_gid BLOCKSIZE t div WF_SIZE) * WF_SIZE + thread_gid BLOCKSIZE t mod WF_SIZE"
  by simp

lemma nn_thread_unique:
  assumes ok: "launch_ok BLOCKSIZE WF_SIZE l"
    and t: "t \<in> set (grid_threads l)" and t': "t' \<in> set (grid_threads l)"
    and col: "thread_col BLOCKSIZE WF_SIZE t = thread_col BLOCKSIZE WF_SIZE t'"
    and wave: "thread_gid BLOCKSIZE t div WF_SIZE = thread_gid BLOCKSIZE t' div WF_SIZE"
  shows "t = t'"
proof -
  have "thread_gid BLOCKSIZE t mod WF_SIZE = thread_gid BLOCKSIZE t' mod WF_SIZE"
    using thread_col_range(2) [OF ok t] thread_col_range(2) [OF ok t'] col by simp
  then have "thread_gid BLOCKSIZE t = thread_gid BLOCKSIZE t'"
    using wave thread_gid_split [of BLOCKSIZE t WF_SIZE] thread_gid_split [of BLOCKSIZE t' WF_SIZE]
    by simp
  moreover have "hipBlockIdx_y t = hipBlockIdx_y t'"
    using thread_col_range(3) [OF ok t] thread_col_range(3) [OF ok t'] col by simp
  ultimately show ?thesis by (rule thread_eqI [OF ok t t'])
qed

lemma nn_at:
  assumes ok: "launch_ok BLOCKSIZE WF_SIZE l"
    and ld: "ld_ok (order a) (ldc a) (dim_M a) (dim_N a)"
    and cover: "dim_N a \<le> hipGridDim_y l * WF_SIZE"
    and i: "0 \<le> i" "i < dim_M a" and j: "0 \<le> j" "j < dim_N a"
  shows "fold (nn_thread_C BLOCKSIZE WF_SIZE l a) (grid_threads l) C
           (dense_index (order a) (ldc a) i j) =
         store_value a (nn_row_sum a (j * ldb a) i) (C (dense_index (order a) (ldc a) i j))"
proof -
  let ?nwf = "hipGridDim_x l * BLOCKSIZE div WF_SIZE"
  let ?x = "dense_index (order a) (ldc a) i j"
  let ?rows = "\<lambda>t. strided (thread_gid BLOCKSIZE t div WF_SIZE) (dim_M a) ?nwf"
  note w = launch_ok_nwf [OF ok]
  have rows_mem: "r \<in> set (?rows t) \<longleftrightarrow> r < dim_M a \<and> thread_gid BLOCKSIZE t div WF_SIZE = r mod ?nwf"
    if "t \<in> set (grid_threads l)" "0 \<le> r" for t r
    using thread_wave_range(1,2) [OF ok that(1)] w(2) that(2) by (intro wave_rows_mem) auto
  have rows_nonneg: "0 \<le> r" if "t \<in> set (grid_threads l)" "r \<in> set (?rows t)" for t r
    using thread_wave_range(1) [OF ok that(1)] strided_lower [OF that(2)] by simp
  define q where "q = i mod ?nwf"
  define r where "r = j mod WF_SIZE"
  define g0 where "g0 = q * WF_SIZE + r"
  have q: "0 \<le> q" "q + 1 \<le> ?nwf" and r: "0 \<le> r" "r < WF_SIZE"
    using w by (simp_all add: q_def r_def add1_zle_eq)
  have "(q + 1) * WF_SIZE \<le> ?nwf * WF_SIZE"
    using w(1) q(2) by (intro mult_right_mono) auto
  then have "g0 < hipGridDim_x l * BLOCKSIZE"
    using r launch_ok_total [OF ok] by (simp add: g0_def algebra_simps)
  moreover have "0 \<le> g0"
    using q r w(1) by (simp add: g0_def)
  ultimately have g0: "0 \<le> g0" "g0 < hipGridDim_x l * BLOCKSIZE" by simp_all
  have "j div WF_SIZE < hipGridDim_y l"
    using w(1) j cover by (intro int_div_less) auto
  moreover have "0 \<le> j div WF_SIZE"
    using w(1) j by (simp add: pos_imp_zdiv_nonneg_iff)
  ultimately obtain t0 where t0: "t0 \<in> set (grid_threads l)"
      "thread_gid BLOCKSIZE t0 = g0" "hipBlockIdx_y t0 = j div WF_SIZE"
    using thread_exists [OF ok g0] by blast
  have wave0: "thread_gid BLOCKSIZE t0 div WF_SIZE = i mod ?nwf"
    and lid0: "thread_gid BLOCKSIZE t0 mod WF_SIZE = j mod WF_SIZE"
    using w(1) r by (simp_all add: t0(2) g0_def q_def [symmetric] r_def [symmetric])
  have col0: "thread_col BLOCKSIZE WF_SIZE t0 = j"
    by (simp add: thread_col_def lid0 t0(3))
  have other: "nn_thread_C BLOCKSIZE WF_SIZE l a t C' ?x = C' ?x"
    if t: "t \<in> set (grid_threads l)" and ne: "t \<noteq> t0" for t C'
    unfolding nn_thread_C_alt
  proof (intro fold_no_writer nn_row_C_other impI notI)
    fix r dummy
    assume r: "r \<in> set (?rows t)"
      and c: "thread_col BLOCKSIZE WF_SIZE t < dim_N a"
      and eq: "?x = dense_index (order a) (ldc a) r (thread_col BLOCKSIZE WF_SIZE t)"
    have "0 \<le> r" "r < dim_M a"
      using rows_nonneg [OF t r] strided_lower [OF r] by simp_all
    then have "i = r \<and> j = thread_col BLOCKSIZE WF_SIZE t"
      using dense_index_inj [OF ld i j _ _ thread_col_range(1) [OF ok t] c eq] by simp
    then have "thread_col BLOCKSIZE WF_SIZE t = thread_col BLOCKSIZE WF_SIZE t0"
      and "thread_gid BLOCKSIZE t div WF_SIZE = thread_gid BLOCKSIZE t0 div WF_SIZE"
      using col0 wave0 rows_mem [OF t \<open>0 \<le> r\<close>] r by simp_all
    then show False
      using nn_thread_unique [OF ok t t0(1)] ne by simp
  qed
  have mine: "nn_thread_C BLOCKSIZE WF_SIZE l a t0 C' ?x =
              store_value a (nn_row_sum a (j * ldb a) i) (C' ?x)" for C'
    unfolding nn_thread_C_alt col0
  proof (rule fold_unique_writer [where ?x0.0 = i])
    show "distinct (?rows t0)" by (rule distinct_strided)
    show "i \<in> set (?rows t0)"
      using rows_mem [OF t0(1) i(1)] i wave0 by simp
    show "nn_row_C a j (j * ldb a) r C'' ?x = C'' ?x"
      if "r \<in> set (?rows t0)" "r \<noteq> i" for r C''
    proof (intro nn_row_C_other impI notI)
      assume eq: "?x = dense_index (order a) (ldc a) r j"
      have "0 \<le> r" "r < dim_M a"
        using rows_nonneg [OF t0(1) that(1)] strided_lower [OF that(1)] by simp_all
      then show False
        using dense_index_inj [OF ld i j _ _ j eq] that(2) by simp
    qed
    show "nn_row_C a j (j * ldb a) i C'' ?x =
          store_value a (nn_row_sum a (j * ldb a) i) (C'' ?x)" for C''
      using j(2) by (rule nn_row_C_at)
  qed
  show ?thesis
    by (rule fold_unique_writer [where U = "nn_thread_C BLOCKSIZE WF_SIZE l a"
          and G = "store_value a (nn_row_sum a (j * ldb a) i)" and a = ?x,
          OF distinct_grid_threads t0(1) other mine])
qed

lemma nn_frame:
  assumes ok: "launch_ok BLOCKSIZE WF_SIZE l"
    and x: "\<not> in_region (order a) (ldc a) (dim_M a) (dim_N a) x"
  shows "fold (nn_thread_C BLOCKSIZE WF_SIZE l a) (grid_threads l) C x = C x"
proof (rule fold_no_writer)
  fix t C'
  assume t: "t \<in> set (grid_threads l)"
  show "nn_thread_C BLOCKSIZE WF_SIZE l a t C' x = C' x"
    unfolding nn_thread_C_alt
  proof (intro fold_no_writer nn_row_C_other impI notI)
    fix r
    assume r: "r \<in> set (strided (thread_gid BLOCKSIZE t div WF_SIZE) (dim_M a)
                          (hipGridDim_x l * BLOCKSIZE div WF_SIZE))"
      and c: "thread_col BLOCKSIZE WF_SIZE t < dim_N a"
      and eq: "x = dense_index (order a) (ldc a) r (thread_col BLOCKSIZE WF_SIZE t)"
    have "0 \<le> r" "r < dim_M a"
      using thread_wave_range(1) [OF ok t] strided_lower [OF r] by simp_all
    then show False
      using x eq c thread_col_range(1) [OF ok t] in_regionI by blast
  qed
qed

lemma nt_thread_C_alt:
  assumes "launch_ok BLOCKSIZE WF_SIZE l"
  shows "nt_thread_C BLOCKSIZE WF_SIZE a offset ncol t C =
     (if thread_gid BLOCKSIZE t div WF_SIZE \<ge> dim_M a then C
      else fold (nt_col_tile_C a (thread_gid BLOCKSIZE t mod WF_SIZE) ncol
                   (thread_gid BLOCKSIZE t div WF_SIZE))
             (strided offset ncol WF_SIZE) C)"
proof -
  have "WF_SIZE dvd BLOCKSIZE" using assms by (simp add: launch_ok_def)
  then have "(hipBlockIdx_x t * BLOCKSIZE + hipThreadIdx_x t) mod WF_SIZE = hipThreadIdx_x t mod WF_SIZE"
    by (metis dvd_mult mod_add_left_eq dvd_eq_mod_eq_0 add_0 mod_mod_trivial)
  then show ?thesis
    by (simp add: nt_thread_C_def thread_gid_def Let_def)
qed

lemma nt_col_tile_C_other:
  "l + lid < ncol \<longrightarrow> x \<noteq> dense_index (order a) (ldc a) row (l + lid) \<Longrightarrow>
   nt_col_tile_C a lid ncol row l C x = C x"
  by (simp add: nt_col_tile_C_def)

lemma nt_col_tile_C_at:
  "l + lid < ncol \<Longrightarrow>
   nt_col_tile_C a lid ncol row l C (dense_index (order a) (ldc a) row (l + lid)) =
     store_value a (nt_row_sum a (l + lid) row) (C (dense_index (order a) (ldc a) row (l + lid)))"
  by (simp add: nt_col_tile_C_def)

lemma tile_lane_unique:
  fixes l lid w offset j :: int
  assumes "0 < w" "0 \<le> lid" "lid < w" "w dvd (l - offset)" "l + lid = j"
  shows "lid = (j - offset) mod w" and "l = j - (j - offset) mod w"
proof -
  obtain q where q: "l - offset = w * q" using assms(4) by (auto simp: dvd_def)
  have "j - offset = lid + w * q" using q assms(5) by simp
  then have "(j - offset) mod w = lid mod w" by simp
  then show "lid = (j - offset) mod w" using assms by simp
  then show "l = j - (j - offset) mod w" using assms(5) by simp
qed

lemma nt_at:
  assumes ok: "launch_ok BLOCKSIZE WF_SIZE l"
    and ld: "ld_ok (order a) (ldc a) (dim_M a) ncol"
    and cover: "dim_M a \<le> hipGridDim_x l * BLOCKSIZE div WF_SIZE" "hipGridDim_y l = 1"
    and off: "0 \<le> offset"
    and i: "0 \<le> i" "i < dim_M a" and j: "offset \<le> j" "j < ncol"
  shows "fold (nt_thread_C BLOCKSIZE WF_SIZE a offset ncol) (grid_threads l) C
           (dense_index (order a) (ldc a) i j) =
         store_value a (nt_row_sum a j i) (C (dense_index (order a) (ldc a) i j))"
proof -
  let ?nwf = "hipGridDim_x l * BLOCKSIZE div WF_SIZE"
  let ?x = "dense_index (order a) (ldc a) i j"
  let ?ls = "strided offset ncol WF_SIZE"
  note w = launch_ok_nwf [OF ok]
  have j0: "0 \<le> j" using off j by simp
  define r where "r = (j - offset) mod WF_SIZE"
  define g0 where "g0 = i * WF_SIZE + r"
  have r: "0 \<le> r" "r < WF_SIZE" "r \<le> j - offset"
    using w(1) j by (simp_all add: r_def zmod_le_nonneg_dividend)
  have "(i + 1) * WF_SIZE \<le> ?nwf * WF_SIZE"
    using w(1) i cover by (intro mult_right_mono) auto
  then have "g0 < hipGridDim_x l * BLOCKSIZE"
    using r launch_ok_total [OF ok] by (simp add: g0_def algebra_simps)
  moreover have "0 \<le> g0"
    using i r w(1) by (simp add: g0_def)
  ultimately obtain t0 where t0: "t0 \<in> set (grid_threads l)"
      "thread_gid BLOCKSIZE t0 = g0" "hipBlockIdx_y t0 = 0"
    using thread_exists [OF ok, of g0 0] cover(2) by auto
  have wave0: "thread_gid BLOCKSIZE t0 div WF_SIZE = i"
    and lid0: "thread_gid BLOCKSIZE t0 mod WF_SIZE = r"
    using w(1) r by (simp_all add: t0(2) g0_def)
  have ls_nonneg: "0 \<le> l'" if "l' \<in> set ?ls" for l'
    using strided_lower [OF that] off by simp
  have other: "nt_thread_C BLOCKSIZE WF_SIZE a offset ncol t C' ?x = C' ?x"
    if t: "t \<in> set (grid_threads l)" and ne: "t \<noteq> t0" for t C'
  proof (cases "thread_gid BLOCKSIZE t div WF_SIZE \<ge> dim_M a")
    case True
    then show ?thesis by (simp add: nt_thread_C_alt [OF ok])
  next
    case False
    note tw = thread_wave_range [OF ok t]
    have "fold (nt_col_tile_C a (thread_gid BLOCKSIZE t mod WF_SIZE) ncol
                  (thread_gid BLOCKSIZE t div WF_SIZE)) ?ls C' ?x = C' ?x"
    proof (intro fold_no_writer nt_col_tile_C_other impI notI)
      fix l'
      assume l': "l' \<in> set ?ls"
        and c: "l' + thread_gid BLOCKSIZE t mod WF_SIZE < ncol"
        and eq: "?x = dense_index (order a) (ldc a) (thread_gid BLOCKSIZE t div WF_SIZE)
                        (l' + thread_gid BLOCKSIZE t mod WF_SIZE)"
      have "0 \<le> l' + thread_gid BLOCKSIZE t mod WF_SIZE"
        using ls_nonneg [OF l'] tw(3) by simp
      then have e: "i = thread_gid BLOCKSIZE t div WF_SIZE"
         "l' + thread_gid BLOCKSIZE t mod WF_SIZE = j"
        using dense_index_inj [OF ld i j0 j(2) tw(1) _ _ c eq] False by simp_all
      have "WF_SIZE dvd (l' - offset)" using l' by (simp add: strided_mem)
      then have "thread_gid BLOCKSIZE t mod WF_SIZE = r"
        using tile_lane_unique(1) [OF w(1) tw(3) tw(4) _ e(2)] by (simp add: r_def)
      then have "thread_gid BLOCKSIZE t = thread_gid BLOCKSIZE t0"
        using e(1) wave0 lid0 thread_gid_split [of BLOCKSIZE t WF_SIZE]
          thread_gid_split [of BLOCKSIZE t0 WF_SIZE] by simp
      moreover have "hipBlockIdx_y t = hipBlockIdx_y t0"
        using t t0 cover(2) by (simp add: grid_threads_mem)
      ultimately show False
        using thread_eqI [OF ok t t0(1)] ne by simp
    qed
    then show ?thesis using False by (simp add: nt_thread_C_alt [OF ok])
  qed
  have "fold (nt_col_tile_C a r ncol i) ?ls C' ?x = store_value a (nt_row_sum a j i) (C' ?x)" for C'
  proof (rule fold_unique_writer [where ?x0.0 = "j - r"])
    show "distinct ?ls" by (rule distinct_strided)
    have "WF_SIZE dvd (j - offset - r)"
      unfolding r_def by (simp add: dvd_minus_mod)
    then have "WF_SIZE dvd (j - r - offset)" by (simp add: algebra_simps)
    then show "j - r \<in> set ?ls"
      using r j w(1) by (simp add: strided_mem)
    show "nt_col_tile_C a r ncol i l' C'' ?x = C'' ?x"
      if "l' \<in> set ?ls" "l' \<noteq> j - r" for l' C''
    proof (intro nt_col_tile_C_other impI notI)
      assume c: "l' + r < ncol" and eq: "?x = dense_index (order a) (ldc a) i (l' + r)"
      have "0 \<le> l' + r" using ls_nonneg [OF that(1)] r by simp
      then have "l' + r = j"
        using dense_index_inj [OF ld i j0 j(2) i _ c eq] by simp
      then show False using that(2) by simp
    qed
    show "nt_col_tile_C a r ncol i (j - r) C'' ?x = store_value a (nt_row_sum a j i) (C'' ?x)" for C''
      using nt_col_tile_C_at [of "j - r" r ncol a i C''] j by simp
  qed
  then have mine: "nt_thread_C BLOCKSIZE WF_SIZE a offset ncol t0 C' ?x =
              store_value a (nt_row_sum a j i) (C' ?x)" for C'
    using i by (simp add: nt_thread_C_alt [OF ok] wave0 lid0)
  show ?thesis
    by (rule fold_unique_writer [where U = "nt_thread_C BLOCKSIZE WF_SIZE a offset ncol"
          and G = "store_value a (nt_row_sum a j i)" and a = ?x,
          OF distinct_grid_threads t0(1) other mine])
qed

lemma nt_frame:
  assumes ok: "launch_ok BLOCKSIZE WF_SIZE l" and off: "0 \<le> offset"
    and x: "\<not> in_region (order a) (ldc a) (dim_M a) ncol x"
  shows "fold (nt_thread_C BLOCKSIZE WF_SIZE a offset ncol) (grid_threads l) C x = C x"
proof (rule fold_no_writer)
  fix t C'
  assume t: "t \<in> set (grid_threads l)"
  note tw = thread_wave_range [OF ok t]
  show "nt_thread_C BLOCKSIZE WF_SIZE a offset ncol t C' x = C' x"
  proof (cases "thread_gid BLOCKSIZE t div WF_SIZE \<ge> dim_M a")
    case True
    then show ?thesis by (simp add: nt_thread_C_alt [OF ok])
  next
    case False
    have "fold (nt_col_tile_C a (thread_gid BLOCKSIZE t mod WF_SIZE) ncol
                  (thread_gid BLOCKSIZE t div WF_SIZE)) (strided offset ncol WF_SIZE) C' x = C' x"
    proof (intro fold_no_writer nt_col_tile_C_other impI notI)
      fix l'
      assume l': "l' \<in> set (strided offset ncol WF_SIZE)"
        and c: "l' + thread_gid BLOCKSIZE t mod WF_SIZE < ncol"
        and eq: "x = dense_index (order a) (ldc a) (thread_gid BLOCKSIZE t div WF_SIZE)
                        (l' + thread_gid BLOCKSIZE t mod WF_SIZE)"
      have "0 \<le> l' + thread_gid BLOCKSIZE t mod WF_SIZE"
        using strided_lower [OF l'] off tw(3) by simp
      then show False
        using x eq c tw(1) False in_regionI [of "thread_gid BLOCKSIZE t div WF_SIZE" "dim_M a"]
        by auto
    qed
    then show ?thesis using False by (simp add: nt_thread_C_alt [OF ok])
  qed
qed

section \<open>Rows without entries\<close>

lemma is_pow2_2: "is_pow2 2"
  unfolding is_pow2_def by (rule exI [of _ 1]) simp

lemma ex_launch_ok: "launch_ok 2 2 ex_launch"
  by (simp add: launch_ok_def ex_launch_def is_pow2_2)




text \<open>
  At the floating-point element type, the nn kernel on a row without entries: with a
  finite \<open>alpha\<close> the product \<open>alpha * sum\<close> is 0, and the element becomes \<open>beta * C_old\<close>
  (0 for \<open>beta = 0\<close>), whatever the values of \<open>beta\<close> and of the element are.
\<close>

lemma ieee_add_zero: "ieee_add z (Finite 0) = z"
  by (cases z) simp_all

lemma ieee_mul_one: "ieee_mul (Finite 1) z = z"
  by (cases z) simp_all

lemma nn_row_float_empty_row:
  assumes "csr_row_ptr a row = csr_row_ptr a (row + 1)" and "alpha a = Finite x"
    and "col < dim_N a"
  shows "\<exists>C' tr'. nn_row_float WF_SIZE a lid col colB row (C, tr) = Some (C', tr') \<and>
           C' (C_index a row col) =
             (if beta a = Finite 0 then Finite 0 else ieee_mul (beta a) (C (C_index a row col))) \<and>
           (beta a = Finite 1 \<longrightarrow> C' (C_index a row col) = C (C_index a row col))"
  using assms
  by (simp add: nn_row_float_def
        for_loop.simps [of "csr_row_ptr a (row + 1) - base_of (idx_base a)"
                           "csr_row_ptr a (row + 1) - base_of (idx_base a)"]
        final_store_float_def store_C_def load_store_C_def rocsparse_fma_float_def
        C_index_def dense_index_def ieee_add_zero ieee_mul_one)




section \<open>Traces of the kernels\<close>

lemma load_trace_events:
  "e \<in> set (load_trace row_end k) \<Longrightarrow> e = Read_col_ind k \<or> e = Read_val k"
  by (auto simp: load_trace_def split: if_splits)

lemma store_trace_events:
  "e \<in> set (store_trace a x) \<Longrightarrow> e = Write_C x \<or> (e = Read_C x \<and> beta a \<noteq> 0)"
  by (auto simp: store_trace_def split: if_splits)

lemma nn_tile_trace_events:
  assumes "e \<in> set (nn_tile_trace WF_SIZE a lid col colB row_end j)"
  shows "(\<exists>k. e = Read_col_ind k \<or> e = Read_val k) \<or>
         (col < dim_N a \<and> (\<exists>i. 0 \<le> i \<and> i < WF_SIZE \<and> e = Read_B (nn_shared_col a row_end (j + i) + colB)))"
  using assms
  by (auto simp: nn_tile_trace_def strided_mem dest!: load_trace_events split: if_splits)

lemma nn_row_trace_events:
  assumes "e \<in> set (nn_row_trace WF_SIZE a lid col colB row)"
  shows "e = Read_row_ptr row \<or> e = Read_row_ptr (row + 1) \<or>
         (\<exists>k. e = Read_col_ind k \<or> e = Read_val k) \<or>
         (col < dim_N a \<and> (\<exists>j i. j \<in> set (strided (row_begin a row) (row_finish a row) WF_SIZE) \<and>
              0 \<le> i \<and> i < WF_SIZE \<and> e = Read_B (nn_shared_col a (row_finish a row) (j + i) + colB))) \<or>
         (col < dim_N a \<and> (e = Write_C (dense_index (order a) (ldc a) row col) \<or>
              (e = Read_C (dense_index (order a) (ldc a) row col) \<and> beta a \<noteq> 0)))"
  using assms unfolding nn_row_trace_def
  by (auto dest!: nn_tile_trace_events store_trace_events split: if_splits)

lemma nn_thread_trace_alt:
  "nn_thread_trace BLOCKSIZE WF_SIZE l a t =
     concat (map (nn_row_trace WF_SIZE a (thread_gid BLOCKSIZE t mod WF_SIZE)
                    (thread_col BLOCKSIZE WF_SIZE t) (thread_col BLOCKSIZE WF_SIZE t * ldb a))
       (strided (thread_gid BLOCKSIZE t div WF_SIZE) (dim_M a)
          (hipGridDim_x l * BLOCKSIZE div WF_SIZE)))"
  by (simp add: nn_thread_trace_def thread_col_def thread_gid_def Let_def)

lemma nt_tile_trace_events:
  assumes "e \<in> set (nt_tile_trace WF_SIZE a lid col ncol row_end j)"
  shows "(\<exists>k. e = Read_col_ind k \<or> e = Read_val k) \<or>
         (col < ncol \<and> (\<exists>i. 0 \<le> i \<and> i < WF_SIZE \<and> e = Read_B (col + nt_shared_col a row_end (j + i))))"
  using assms
  by (auto simp: nt_tile_trace_def strided_mem dest!: load_trace_events split: if_splits)

lemma nt_col_tile_trace_events:
  assumes "e \<in> set (nt_col_tile_trace WF_SIZE a lid ncol row l)"
  shows "(\<exists>k. e = Read_col_ind k \<or> e = Read_val k) \<or>
         (l + lid < ncol \<and> (\<exists>j i. j \<in> set (strided (row_begin a row) (row_finish a row) WF_SIZE) \<and>
              0 \<le> i \<and> i < WF_SIZE \<and> e = Read_B (l + lid + nt_shared_col a (row_finish a row) (j + i)))) \<or>
         (l + lid < ncol \<and> (e = Write_C (dense_index (order a) (ldc a) row (l + lid)) \<or>
              (e = Read_C (dense_index (order a) (ldc a) row (l + lid)) \<and> beta a \<noteq> 0)))"
  using assms unfolding nt_col_tile_trace_def
  by (auto dest!: nt_tile_trace_events store_trace_events split: if_splits)

lemma nt_thread_trace_alt:
  assumes "launch_ok BLOCKSIZE WF_SIZE l"
  shows "nt_thread_trace BLOCKSIZE WF_SIZE a offset ncol t =
     (if thread_gid BLOCKSIZE t div WF_SIZE \<ge> dim_M a then []
      else [Read_row_ptr (thread_gid BLOCKSIZE t div WF_SIZE),
            Read_row_ptr (thread_gid BLOCKSIZE t div WF_SIZE + 1)] @
           concat (map (nt_col_tile_trace WF_SIZE a (thread_gid BLOCKSIZE t mod WF_SIZE) ncol
                          (thread_gid BLOCKSIZE t div WF_SIZE))
                     (strided offset ncol WF_SIZE)))"
proof -
  have "WF_SIZE dvd BLOCKSIZE" using assms by (simp add: launch_ok_def)
  then have "(hipBlockIdx_x t * BLOCKSIZE + hipThreadIdx_x t) mod WF_SIZE = hipThreadIdx_x t mod WF_SIZE"
    by (metis dvd_mult mod_add_left_eq dvd_eq_mod_eq_0 add_0 mod_mod_trivial)
  then show ?thesis
    by (simp add: nt_thread_trace_def thread_gid_def Let_def)
qed

lemma scatter_trace_events:
  "e \<in> set (scatter_trace WF_SIZE a bidy j) \<Longrightarrow>
     e = Read_col_ind j \<or> e = Read_val j \<or> (\<exists>x. e = AtomicAdd_C x)"
  by (auto simp: scatter_trace_def)

lemma row_trace_row_ptr:
  "Read_row_ptr y \<in> set (row_trace WF_SIZE a bidy addr_B lid row) \<Longrightarrow> y = row \<or> y = row + 1"
  by (auto simp: row_trace_def dest!: scatter_trace_events split: if_splits)

lemma nn_row_ptr_reads:
  assumes ok: "launch_ok BLOCKSIZE WF_SIZE l"
    and e: "Read_row_ptr y \<in> set (concat (map (nn_thread_trace BLOCKSIZE WF_SIZE l a) (grid_threads l)))"
  shows "0 \<le> y \<and> y \<le> dim_M a"
proof -
  obtain t r where t: "t \<in> set (grid_threads l)"
    and r: "r \<in> set (strided (thread_gid BLOCKSIZE t div WF_SIZE) (dim_M a)
                         (hipGridDim_x l * BLOCKSIZE div WF_SIZE))"
    and y: "y = r \<or> y = r + 1"
    using e by (auto simp: nn_thread_trace_alt dest!: nn_row_trace_events)
  show ?thesis
    using y strided_lower [OF r] thread_wave_range(1) [OF ok t] by auto
qed

lemma nt_row_ptr_reads:
  assumes ok: "launch_ok BLOCKSIZE WF_SIZE l"
    and e: "Read_row_ptr y \<in> set (concat (map (nt_thread_trace BLOCKSIZE WF_SIZE a offset ncol) (grid_threads l)))"
  shows "0 \<le> y \<and> y \<le> dim_M a"
proof -
  obtain t where t: "t \<in> set (grid_threads l)"
    and y: "y = thread_gid BLOCKSIZE t div WF_SIZE \<or> y = thread_gid BLOCKSIZE t div WF_SIZE + 1"
    and m: "thread_gid BLOCKSIZE t div WF_SIZE < dim_M a"
    using e by (auto simp: nt_thread_trace_alt [OF ok] dest!: nt_col_tile_trace_events split: if_splits)
  show ?thesis
    using y m thread_wave_range(1) [OF ok t] by auto
qed

lemma tn_row_ptr_reads:
  assumes ok: "launch_ok BLOCKSIZE WF_SIZE l"
    and e: "Read_row_ptr y \<in> set (concat (map (tn_thread_trace BLOCKSIZE WF_SIZE l a) (grid_threads l)))"
  shows "0 \<le> y \<and> y \<le> dim_K a"
proof -
  obtain t r where t: "t \<in> set (grid_threads l)"
    and r: "r \<in> set (thread_rows BLOCKSIZE WF_SIZE l (dim_K a) t)"
    and y: "y = r \<or> y = r + 1"
    using e by (auto simp: tn_thread_trace_def dest!: row_trace_row_ptr)
  show ?thesis
    using y strided_lower [OF r [unfolded thread_rows_def]]
      thread_wave_range(1) [OF ok t] by (auto simp: thread_gid_def)
qed

lemma tt_row_ptr_reads:
  assumes ok: "launch_ok BLOCKSIZE WF_SIZE l"
    and e: "Read_row_ptr y \<in> set (concat (map (tt_thread_trace BLOCKSIZE WF_SIZE l a) (grid_threads l)))"
  shows "0 \<le> y \<and> y \<le> dim_K a"
proof -
  obtain t r where t: "t \<in> set (grid_threads l)"
    and r: "r \<in> set (thread_rows BLOCKSIZE WF_SIZE l (dim_K a) t)"
    and y: "y = r \<or> y = r + 1"
    using e by (auto simp: tt_thread_trace_def dest!: row_trace_row_ptr)
  show ?thesis
    using y strided_lower [OF r [unfolded thread_rows_def]]
      thread_wave_range(1) [OF ok t] by (auto simp: thread_gid_def)
qed

text \<open>
  Claim C8, as stated, fails for the transposed kernels: they walk the \<open>K\<close> stored rows of
  A. With \<open>M = 1\<close> and \<open>K = 2\<close> the tn kernel reads \<open>row_ptr[2]\<close>.
\<close>

theorem tn_reads_row_ptr_beyond_M:
  "Read_row_ptr 2 \<in> set (trace_of (csrmmtn 2 2 ex_launch ex_tn (zero_C, []))) \<and>
   dim_M ex_tn < 2"
  by code_simp

text \<open>
  Claim C8, amended. Every kernel returns; nn and nt read \<open>row_ptr\<close> at indices from 0 to
  \<open>M\<close> only, tn and tt at indices from 0 to \<open>K\<close> only (the number of stored rows of A that
  they walk).
\<close>

theorem row_ptr_reads_bounded:
  assumes "launch_ok BLOCKSIZE WF_SIZE l"
  shows "(\<exists>C' tr'. csrmmnn BLOCKSIZE WF_SIZE l a (C, []) = Some (C', tr') \<and>
            (\<forall>y. Read_row_ptr y \<in> set tr' \<longrightarrow> 0 \<le> y \<and> y \<le> dim_M a)) \<and>
         (\<exists>C' tr'. csrmmnt BLOCKSIZE WF_SIZE l offset ncol a (C, []) = Some (C', tr') \<and>
            (\<forall>y. Read_row_ptr y \<in> set tr' \<longrightarrow> 0 \<le> y \<and> y \<le> dim_M a)) \<and>
         (\<exists>C' tr'. csrmmtn BLOCKSIZE WF_SIZE l a (C, []) = Some (C', tr') \<and>
            (\<forall>y. Read_row_ptr y \<in> set tr' \<longrightarrow> 0 \<le> y \<and> y \<le> dim_K a)) \<and>
         (\<exists>C' tr'. csrmmtt BLOCKSIZE WF_SIZE l a (C, []) = Some (C', tr') \<and>
            (\<forall>y. Read_row_ptr y \<in> set tr' \<longrightarrow> 0 \<le> y \<and> y \<le> dim_K a))"
  using nn_row_ptr_reads [OF assms, of _ a] nt_row_ptr_reads [OF assms, of _ a offset ncol]
    tn_row_ptr_reads [OF assms, of _ a] tt_row_ptr_reads [OF assms, of _ a]
  by (simp add: nn_closed [OF assms] nt_closed [OF assms] tn_closed [OF assms] tt_closed [OF assms])

theorem row_ptr_reads_bounded_witness:
  "launch_ok 2 2 ex_launch \<and>
   (\<exists>C' tr'. csrmmnn 2 2 ex_launch ex_identity (zero_C, []) = Some (C', tr') \<and>
      Read_row_ptr 3 \<in> set tr' \<and> 3 \<le> dim_M ex_identity) \<and>
   (\<exists>C' tr'. csrmmnt 2 2 ex_launch 0 2 ex_identity (zero_C, []) = Some (C', tr') \<and>
      Read_row_ptr 2 \<in> set tr' \<and> 2 \<le> dim_M ex_identity) \<and>
   (\<exists>C' tr'. csrmmtn 2 2 ex_launch ex_tn (zero_C, []) = Some (C', tr') \<and>
      Read_row_ptr 2 \<in> set tr' \<and> 2 \<le> dim_K ex_tn) \<and>
   (\<exists>C' tr'. csrmmtt 2 2 ex_launch ex_tn (zero_C, []) = Some (C', tr') \<and>
      Read_row_ptr 2 \<in> set tr' \<and> 2 \<le> dim_K ex_tn)"
proof -
  have run: "Read_row_ptr 3 \<in> set (trace_of (csrmmnn 2 2 ex_launch ex_identity (zero_C, [])))"
    "Read_row_ptr 2 \<in> set (trace_of (csrmmnt 2 2 ex_launch 0 2 ex_identity (zero_C, [])))"
    "Read_row_ptr 2 \<in> set (trace_of (csrmmtn 2 2 ex_launch ex_tn (zero_C, [])))"
    "Read_row_ptr 2 \<in> set (trace_of (csrmmtt 2 2 ex_launch ex_tn (zero_C, [])))"
    by code_simp+
  note b = row_ptr_reads_bounded [OF ex_launch_ok, where C = zero_C]
  obtain C1 tr1 where n: "csrmmnn 2 2 ex_launch ex_identity (zero_C, []) = Some (C1, tr1)"
    "\<forall>y. Read_row_ptr y \<in> set tr1 \<longrightarrow> 0 \<le> y \<and> y \<le> dim_M ex_identity"
    using b [where a = ex_identity, THEN conjunct1] by (elim exE conjE)
  obtain C2 tr2 where t: "csrmmnt 2 2 ex_launch 0 2 ex_identity (zero_C, []) = Some (C2, tr2)"
    "\<forall>y. Read_row_ptr y \<in> set tr2 \<longrightarrow> 0 \<le> y \<and> y \<le> dim_M ex_identity"
    using b [where a = ex_identity and offset = 0 and ncol = 2, THEN conjunct2, THEN conjunct1]
    by (elim exE conjE)
  obtain C3 tr3 where tn: "csrmmtn 2 2 ex_launch ex_tn (zero_C, []) = Some (C3, tr3)"
    "\<forall>y. Read_row_ptr y \<in> set tr3 \<longrightarrow> 0 \<le> y \<and> y \<le> dim_K ex_tn"
    using b [where a = ex_tn, THEN conjunct2, THEN conjunct2, THEN conjunct1]
    by (elim exE conjE)
  obtain C4 tr4 where tt: "csrmmtt 2 2 ex_launch ex_tn (zero_C, []) = Some (C4, tr4)"
    "\<forall>y. Read_row_ptr y \<in> set tr4 \<longrightarrow> 0 \<le> y \<and> y \<le> dim_K ex_tn"
    using b [where a = ex_tn, THEN conjunct2, THEN conjunct2, THEN conjunct2]
    by (elim exE conjE)
  have r: "Read_row_ptr 3 \<in> set tr1" "Read_row_ptr 2 \<in> set tr2"
    "Read_row_ptr 2 \<in> set tr3" "Read_row_ptr 2 \<in> set tr4"
    using run n(1) t(1) tn(1) tt(1) by (simp_all add: trace_of_def)
  have "3 \<le> dim_M ex_identity" "2 \<le> dim_M ex_identity" "2 \<le> dim_K ex_tn"
    using r n(2) t(2) tn(2) by blast+
  then show ?thesis
    using ex_launch_ok n(1) t(1) tn(1) tt(1) r by blast
qed

section \<open>Independence of the contents of C for beta zero\<close>

lemma fold_agree:
  assumes "\<And>t C1 C2. t \<in> set ts \<Longrightarrow> x \<in> W t \<Longrightarrow> U t C1 x = U t C2 x"
    and "\<And>t C. t \<in> set ts \<Longrightarrow> x \<notin> W t \<Longrightarrow> U t C x = C x"
    and "C1 x = C2 x \<or> (\<exists>t\<in>set ts. x \<in> W t)"
  shows "fold U ts C1 x = fold U ts C2 x"
  using assms
proof (induction ts arbitrary: C1 C2)
  case Nil
  then show ?case by simp
next
  case (Cons t ts)
  have "U t C1 x = U t C2 x \<or> (\<exists>t'\<in>set ts. x \<in> W t')"
  proof (cases "x \<in> W t")
    case True
    then show ?thesis using Cons.prems(1) [of t C1 C2] by simp
  next
    case False
    then show ?thesis
      using Cons.prems(2) [of t C1] Cons.prems(2) [of t C2] Cons.prems(3) by auto
  qed
  then have "fold U ts (U t C1) x = fold U ts (U t C2) x"
    using Cons.prems(1,2) by (intro Cons.IH) auto
  then show ?case by simp
qed

lemma nn_row_trace_Write:
  "Write_C x \<in> set (nn_row_trace WF_SIZE a lid col colB row) \<longleftrightarrow>
     col < dim_N a \<and> x = dense_index (order a) (ldc a) row col"
proof
  assume "Write_C x \<in> set (nn_row_trace WF_SIZE a lid col colB row)"
  then show "col < dim_N a \<and> x = dense_index (order a) (ldc a) row col"
    by (auto dest!: nn_row_trace_events)
next
  assume "col < dim_N a \<and> x = dense_index (order a) (ldc a) row col"
  then show "Write_C x \<in> set (nn_row_trace WF_SIZE a lid col colB row)"
    by (simp add: nn_row_trace_def store_trace_def)
qed

lemma nt_col_tile_trace_Write:
  "Write_C x \<in> set (nt_col_tile_trace WF_SIZE a lid ncol row l) \<longleftrightarrow>
     l + lid < ncol \<and> x = dense_index (order a) (ldc a) row (l + lid)"
proof
  assume "Write_C x \<in> set (nt_col_tile_trace WF_SIZE a lid ncol row l)"
  then show "l + lid < ncol \<and> x = dense_index (order a) (ldc a) row (l + lid)"
    by (auto dest!: nt_col_tile_trace_events)
next
  assume "l + lid < ncol \<and> x = dense_index (order a) (ldc a) row (l + lid)"
  then show "Write_C x \<in> set (nt_col_tile_trace WF_SIZE a lid ncol row l)"
    by (simp add: nt_col_tile_trace_def store_trace_def)
qed

lemma nn_row_C_beta0:
  assumes "beta a = 0"
    and "Write_C x \<in> set (nn_row_trace WF_SIZE a lid col colB row)"
  shows "nn_row_C a col colB row C1 x = nn_row_C a col colB row C2 x"
  using assms by (simp add: nn_row_trace_Write nn_row_C_def store_value_def)

lemma nt_col_tile_C_beta0:
  assumes "beta a = 0"
    and "Write_C x \<in> set (nt_col_tile_trace WF_SIZE a lid ncol row l)"
  shows "nt_col_tile_C a lid ncol row l C1 x = nt_col_tile_C a lid ncol row l C2 x"
  using assms by (simp add: nt_col_tile_trace_Write nt_col_tile_C_def store_value_def)

lemma nn_thread_beta0:
  assumes "beta a = 0"
  shows "Write_C x \<in> set (nn_thread_trace BLOCKSIZE WF_SIZE l a t) \<Longrightarrow>
           nn_thread_C BLOCKSIZE WF_SIZE l a t C1 x = nn_thread_C BLOCKSIZE WF_SIZE l a t C2 x"
    and "Write_C x \<notin> set (nn_thread_trace BLOCKSIZE WF_SIZE l a t) \<Longrightarrow>
           nn_thread_C BLOCKSIZE WF_SIZE l a t C x = C x"
proof -
  let ?lid = "thread_gid BLOCKSIZE t mod WF_SIZE"
  let ?col = "thread_col BLOCKSIZE WF_SIZE t"
  let ?W = "\<lambda>r. {x. Write_C x \<in> set (nn_row_trace WF_SIZE a ?lid ?col (?col * ldb a) r)}"
  show "nn_thread_C BLOCKSIZE WF_SIZE l a t C1 x = nn_thread_C BLOCKSIZE WF_SIZE l a t C2 x"
    if "Write_C x \<in> set (nn_thread_trace BLOCKSIZE WF_SIZE l a t)"
    unfolding nn_thread_C_alt
  proof (rule fold_agree [where W = ?W])
    show "nn_row_C a ?col (?col * ldb a) r C1' x = nn_row_C a ?col (?col * ldb a) r C2' x"
      if "x \<in> ?W r" for r C1' C2'
      using that nn_row_C_beta0 [OF assms] by simp
    show "nn_row_C a ?col (?col * ldb a) r C' x = C' x" if "x \<notin> ?W r" for r C'
      using that by (intro nn_row_C_other) (auto simp: nn_row_trace_Write)
    show "C1 x = C2 x \<or> (\<exists>r\<in>set (strided (thread_gid BLOCKSIZE t div WF_SIZE) (dim_M a)
                                    (hipGridDim_x l * BLOCKSIZE div WF_SIZE)). x \<in> ?W r)"
      using that by (auto simp: nn_thread_trace_alt)
  qed
  show "nn_thread_C BLOCKSIZE WF_SIZE l a t C x = C x"
    if "Write_C x \<notin> set (nn_thread_trace BLOCKSIZE WF_SIZE l a t)"
    unfolding nn_thread_C_alt
  proof (intro fold_no_writer nn_row_C_other impI notI)
    fix r
    assume "r \<in> set (strided (thread_gid BLOCKSIZE t div WF_SIZE) (dim_M a)
                        (hipGridDim_x l * BLOCKSIZE div WF_SIZE))"
      and "?col < dim_N a" and "x = dense_index (order a) (ldc a) r ?col"
    then have "Write_C x \<in> set (nn_thread_trace BLOCKSIZE WF_SIZE l a t)"
      by (auto simp: nn_thread_trace_alt nn_row_trace_Write)
    then show False using that by simp
  qed
qed

lemma nt_thread_beta0:
  assumes ok: "launch_ok BLOCKSIZE WF_SIZE l" and "beta a = 0"
  shows "Write_C x \<in> set (nt_thread_trace BLOCKSIZE WF_SIZE a offset ncol t) \<Longrightarrow>
           nt_thread_C BLOCKSIZE WF_SIZE a offset ncol t C1 x =
           nt_thread_C BLOCKSIZE WF_SIZE a offset ncol t C2 x"
    and "Write_C x \<notin> set (nt_thread_trace BLOCKSIZE WF_SIZE a offset ncol t) \<Longrightarrow>
           nt_thread_C BLOCKSIZE WF_SIZE a offset ncol t C x = C x"
proof -
  let ?lid = "thread_gid BLOCKSIZE t mod WF_SIZE"
  let ?row = "thread_gid BLOCKSIZE t div WF_SIZE"
  let ?W = "\<lambda>l'. {x. Write_C x \<in> set (nt_col_tile_trace WF_SIZE a ?lid ncol ?row l')}"
  show "nt_thread_C BLOCKSIZE WF_SIZE a offset ncol t C1 x =
        nt_thread_C BLOCKSIZE WF_SIZE a offset ncol t C2 x"
    if w: "Write_C x \<in> set (nt_thread_trace BLOCKSIZE WF_SIZE a offset ncol t)"
  proof -
    have row: "\<not> dim_M a \<le> ?row"
      using w by (auto simp: nt_thread_trace_alt [OF ok] split: if_splits)
    have "fold (nt_col_tile_C a ?lid ncol ?row) (strided offset ncol WF_SIZE) C1 x =
          fold (nt_col_tile_C a ?lid ncol ?row) (strided offset ncol WF_SIZE) C2 x"
    proof (rule fold_agree [where W = ?W])
      show "nt_col_tile_C a ?lid ncol ?row l' C1' x = nt_col_tile_C a ?lid ncol ?row l' C2' x"
        if "x \<in> ?W l'" for l' C1' C2'
        using that nt_col_tile_C_beta0 [OF assms(2)] by simp
      show "nt_col_tile_C a ?lid ncol ?row l' C' x = C' x" if "x \<notin> ?W l'" for l' C'
        using that by (intro nt_col_tile_C_other) (auto simp: nt_col_tile_trace_Write)
      show "C1 x = C2 x \<or> (\<exists>l'\<in>set (strided offset ncol WF_SIZE). x \<in> ?W l')"
        using w row by (auto simp: nt_thread_trace_alt [OF ok])
    qed
    then show ?thesis using row by (simp add: nt_thread_C_alt [OF ok])
  qed
  show "nt_thread_C BLOCKSIZE WF_SIZE a offset ncol t C x = C x"
    if w: "Write_C x \<notin> set (nt_thread_trace BLOCKSIZE WF_SIZE a offset ncol t)"
  proof (cases "dim_M a \<le> ?row")
    case True
    then show ?thesis by (simp add: nt_thread_C_alt [OF ok])
  next
    case False
    have "fold (nt_col_tile_C a ?lid ncol ?row) (strided offset ncol WF_SIZE) C x = C x"
    proof (intro fold_no_writer nt_col_tile_C_other impI notI)
      fix l'
      assume "l' \<in> set (strided offset ncol WF_SIZE)"
        and "l' + ?lid < ncol" and "x = dense_index (order a) (ldc a) ?row (l' + ?lid)"
      then have "Write_C x \<in> set (nt_thread_trace BLOCKSIZE WF_SIZE a offset ncol t)"
        using False by (auto simp: nt_thread_trace_alt [OF ok] nt_col_tile_trace_Write)
      then show False using w by simp
    qed
    then show ?thesis using False by (simp add: nt_thread_C_alt [OF ok])
  qed
qed

lemma nn_no_Read_C:
  assumes "beta a = 0"
  shows "Read_C x \<notin> set (concat (map (nn_thread_trace BLOCKSIZE WF_SIZE l a) ts))"
  using assms by (auto simp: nn_thread_trace_alt dest!: nn_row_trace_events)

lemma nt_no_Read_C:
  assumes "launch_ok BLOCKSIZE WF_SIZE l" and "beta a = 0"
  shows "Read_C x \<notin> set (concat (map (nt_thread_trace BLOCKSIZE WF_SIZE a offset ncol) ts))"
  using assms(2)
  by (auto simp: nt_thread_trace_alt [OF assms(1)] dest!: nt_col_tile_trace_events split: if_splits)

lemma fold_some_writer:
  assumes "\<And>t C. t \<in> set ts \<Longrightarrow> x \<in> W t \<Longrightarrow> P (U t C x)"
    and "\<And>t C. t \<in> set ts \<Longrightarrow> x \<notin> W t \<Longrightarrow> U t C x = C x"
    and "P (C x) \<or> (\<exists>t\<in>set ts. x \<in> W t)"
  shows "P (fold U ts C x)"
  using assms
proof (induction ts arbitrary: C)
  case Nil
  then show ?case by simp
next
  case (Cons t ts)
  have "P (U t C x) \<or> (\<exists>t'\<in>set ts. x \<in> W t')"
  proof (cases "x \<in> W t")
    case True
    then show ?thesis using Cons.prems(1) [of t C] by simp
  next
    case False
    then show ?thesis using Cons.prems(2) [of t C] Cons.prems(3) by auto
  qed
  then have "P (fold U ts (U t C) x)"
    using Cons.prems(1,2) by (intro Cons.IH) auto
  then show ?case by simp
qed

lemma nn_thread_stored:
  assumes ok: "launch_ok BLOCKSIZE WF_SIZE l" and t: "t \<in> set (grid_threads l)"
    and b: "beta a = 0"
    and w: "Write_C x \<in> set (nn_thread_trace BLOCKSIZE WF_SIZE l a t)"
  shows "\<exists>row col. 0 \<le> row \<and> row < dim_M a \<and> 0 \<le> col \<and> col < dim_N a \<and>
           x = C_index a row col \<and>
           nn_thread_C BLOCKSIZE WF_SIZE l a t C x = alpha a * nn_row_sum a (col * ldb a) row"
proof -
  let ?lid = "thread_gid BLOCKSIZE t mod WF_SIZE"
  let ?col = "thread_col BLOCKSIZE WF_SIZE t"
  let ?W = "\<lambda>r. {x. Write_C x \<in> set (nn_row_trace WF_SIZE a ?lid ?col (?col * ldb a) r)}"
  let ?P = "\<lambda>v. \<exists>row col. 0 \<le> row \<and> row < dim_M a \<and> 0 \<le> col \<and> col < dim_N a \<and>
           x = C_index a row col \<and> v = alpha a * nn_row_sum a (col * ldb a) row"
  let ?rows = "strided (thread_gid BLOCKSIZE t div WF_SIZE) (dim_M a)
                 (hipGridDim_x l * BLOCKSIZE div WF_SIZE)"
  note c = thread_col_range(1) [OF ok t]
  note g = thread_wave_range(1) [OF ok t]
  have "?P (fold (nn_row_C a ?col (?col * ldb a)) ?rows C x)"
  proof (rule fold_some_writer [where W = ?W])
    show "?P (nn_row_C a ?col (?col * ldb a) r C' x)" if "r \<in> set ?rows" "x \<in> ?W r" for r C'
    proof -
      have r: "0 \<le> r" "r < dim_M a" using strided_lower [OF that(1)] g by simp_all
      have x: "?col < dim_N a" "x = dense_index (order a) (ldc a) r ?col"
        using that(2) by (simp_all add: nn_row_trace_Write)
      have "nn_row_C a ?col (?col * ldb a) r C' x = alpha a * nn_row_sum a (?col * ldb a) r"
        using x b by (simp add: nn_row_C_def store_value_def)
      then show ?thesis using r x c by (auto simp: C_index_def)
    qed
    show "nn_row_C a ?col (?col * ldb a) r C' x = C' x" if "x \<notin> ?W r" for r C'
      using that by (intro nn_row_C_other) (auto simp: nn_row_trace_Write)
    show "?P (C x) \<or> (\<exists>r\<in>set ?rows. x \<in> ?W r)"
      using w by (auto simp: nn_thread_trace_alt)
  qed
  then show ?thesis by (simp add: nn_thread_C_alt)
qed

lemma nt_thread_stored:
  assumes ok: "launch_ok BLOCKSIZE WF_SIZE l" and t: "t \<in> set (grid_threads l)"
    and b: "beta a = 0"
    and w: "Write_C x \<in> set (nt_thread_trace BLOCKSIZE WF_SIZE a offset ncol t)"
  shows "\<exists>row col. 0 \<le> row \<and> row < dim_M a \<and> offset \<le> col \<and> col < ncol \<and>
           x = C_index a row col \<and>
           nt_thread_C BLOCKSIZE WF_SIZE a offset ncol t C x = alpha a * nt_row_sum a col row"
proof -
  let ?lid = "thread_gid BLOCKSIZE t mod WF_SIZE"
  let ?row = "thread_gid BLOCKSIZE t div WF_SIZE"
  let ?W = "\<lambda>l'. {x. Write_C x \<in> set (nt_col_tile_trace WF_SIZE a ?lid ncol ?row l')}"
  let ?P = "\<lambda>v. \<exists>row col. 0 \<le> row \<and> row < dim_M a \<and> offset \<le> col \<and> col < ncol \<and>
           x = C_index a row col \<and> v = alpha a * nt_row_sum a col row"
  note g = thread_wave_range [OF ok t]
  have row: "\<not> dim_M a \<le> ?row"
    using w by (auto simp: nt_thread_trace_alt [OF ok] split: if_splits)
  have "?P (fold (nt_col_tile_C a ?lid ncol ?row) (strided offset ncol WF_SIZE) C x)"
  proof (rule fold_some_writer [where W = ?W])
    show "?P (nt_col_tile_C a ?lid ncol ?row l' C' x)"
      if "l' \<in> set (strided offset ncol WF_SIZE)" "x \<in> ?W l'" for l' C'
    proof -
      have l: "offset \<le> l' + ?lid" using strided_lower [OF that(1)] g(3) by simp
      have x: "l' + ?lid < ncol" "x = dense_index (order a) (ldc a) ?row (l' + ?lid)"
        using that(2) by (simp_all add: nt_col_tile_trace_Write)
      have "nt_col_tile_C a ?lid ncol ?row l' C' x = alpha a * nt_row_sum a (l' + ?lid) ?row"
        using x b by (simp add: nt_col_tile_C_def store_value_def)
      then show ?thesis using l x row g(1) by (auto simp: C_index_def)
    qed
    show "nt_col_tile_C a ?lid ncol ?row l' C' x = C' x" if "x \<notin> ?W l'" for l' C'
      using that by (intro nt_col_tile_C_other) (auto simp: nt_col_tile_trace_Write)
    show "?P (C x) \<or> (\<exists>l'\<in>set (strided offset ncol WF_SIZE). x \<in> ?W l')"
      using w row by (auto simp: nt_thread_trace_alt [OF ok])
  qed
  then show ?thesis using row by (simp add: nt_thread_C_alt [OF ok])
qed


lemma nn_launch_stored:
  assumes "launch_ok BLOCKSIZE WF_SIZE l" and "beta a = 0"
    and "Write_C x \<in> set (concat (map (nn_thread_trace BLOCKSIZE WF_SIZE l a) (grid_threads l)))"
  shows "\<exists>row col. 0 \<le> row \<and> row < dim_M a \<and> 0 \<le> col \<and> col < dim_N a \<and>
           x = C_index a row col \<and>
           fold (nn_thread_C BLOCKSIZE WF_SIZE l a) (grid_threads l) C x =
             alpha a * nn_row_sum a (col * ldb a) row"
proof (rule fold_some_writer
    [where W = "\<lambda>t. {x. Write_C x \<in> set (nn_thread_trace BLOCKSIZE WF_SIZE l a t)}"])
  show "\<exists>row col. 0 \<le> row \<and> row < dim_M a \<and> 0 \<le> col \<and> col < dim_N a \<and>
           x = C_index a row col \<and>
           nn_thread_C BLOCKSIZE WF_SIZE l a t C' x = alpha a * nn_row_sum a (col * ldb a) row"
    if "t \<in> set (grid_threads l)"
      "x \<in> {x. Write_C x \<in> set (nn_thread_trace BLOCKSIZE WF_SIZE l a t)}" for t C'
    using that nn_thread_stored [OF assms(1) _ assms(2)] by simp
  show "nn_thread_C BLOCKSIZE WF_SIZE l a t C' x = C' x"
    if "x \<notin> {x. Write_C x \<in> set (nn_thread_trace BLOCKSIZE WF_SIZE l a t)}" for t C'
    using that nn_thread_beta0(2) [OF assms(2)] by simp
  show "(\<exists>row col. 0 \<le> row \<and> row < dim_M a \<and> 0 \<le> col \<and> col < dim_N a \<and>
           x = C_index a row col \<and> C x = alpha a * nn_row_sum a (col * ldb a) row) \<or>
        (\<exists>t\<in>set (grid_threads l). x \<in> {x. Write_C x \<in> set (nn_thread_trace BLOCKSIZE WF_SIZE l a t)})"
    using assms(3) by auto
qed

lemma nt_launch_stored:
  assumes "launch_ok BLOCKSIZE WF_SIZE l" and "beta a = 0"
    and "Write_C x \<in> set (concat (map (nt_thread_trace BLOCKSIZE WF_SIZE a offset ncol) (grid_threads l)))"
  shows "\<exists>row col. 0 \<le> row \<and> row < dim_M a \<and> offset \<le> col \<and> col < ncol \<and>
           x = C_index a row col \<and>
           fold (nt_thread_C BLOCKSIZE WF_SIZE a offset ncol) (grid_threads l) C x =
             alpha a * nt_row_sum a col row"
proof (rule fold_some_writer
    [where W = "\<lambda>t. {x. Write_C x \<in> set (nt_thread_trace BLOCKSIZE WF_SIZE a offset ncol t)}"])
  show "\<exists>row col. 0 \<le> row \<and> row < dim_M a \<and> offset \<le> col \<and> col < ncol \<and>
           x = C_index a row col \<and>
           nt_thread_C BLOCKSIZE WF_SIZE a offset ncol t C' x = alpha a * nt_row_sum a col row"
    if "t \<in> set (grid_threads l)"
      "x \<in> {x. Write_C x \<in> set (nt_thread_trace BLOCKSIZE WF_SIZE a offset ncol t)}" for t C'
    using that nt_thread_stored [OF assms(1) _ assms(2)] by simp
  show "nt_thread_C BLOCKSIZE WF_SIZE a offset ncol t C' x = C' x"
    if "x \<notin> {x. Write_C x \<in> set (nt_thread_trace BLOCKSIZE WF_SIZE a offset ncol t)}" for t C'
    using that nt_thread_beta0(2) [OF assms(1,2)] by simp
  show "(\<exists>row col. 0 \<le> row \<and> row < dim_M a \<and> offset \<le> col \<and> col < ncol \<and>
           x = C_index a row col \<and> C x = alpha a * nt_row_sum a col row) \<or>
        (\<exists>t\<in>set (grid_threads l). x \<in> {x. Write_C x \<in> set (nt_thread_trace BLOCKSIZE WF_SIZE a offset ncol t)})"
    using assms(3) by auto
qed

lemma final_store_beta0:
  "beta a = 0 \<Longrightarrow>
   final_store a row col sumv (C, tr) =
     (C(C_index a row col := alpha a * sumv), tr @ [Write_C (C_index a row col)])"
  by (simp add: final_store_eq store_value_def store_trace_def C_index_def)

text \<open>
  Claim C3. With \<open>beta = 0\<close> the final store of the nn and nt kernels writes \<open>alpha * sum\<close>
  and reads nothing. In a launch the kernels never read C, and every element that they
  write holds \<open>alpha\<close> times the sum of a row of A against the elements of B that the
  kernel reads for a column: the same value from any two contents of C.
\<close>

theorem beta_zero_ignores_C:
  assumes "launch_ok BLOCKSIZE WF_SIZE l" and "beta a = 0"
  shows "final_store a row col sumv (C1, tr) =
           (C1(C_index a row col := alpha a * sumv), tr @ [Write_C (C_index a row col)]) \<and>
         (\<exists>C1' C2' tr'.
            csrmmnn BLOCKSIZE WF_SIZE l a (C1, []) = Some (C1', tr') \<and>
            csrmmnn BLOCKSIZE WF_SIZE l a (C2, []) = Some (C2', tr') \<and>
            (\<forall>x. Read_C x \<notin> set tr' \<and>
                 (Write_C x \<in> set tr' \<longrightarrow>
                    C1' x = C2' x \<and>
                    (\<exists>i j. 0 \<le> i \<and> i < dim_M a \<and> 0 \<le> j \<and> j < dim_N a \<and>
                       x = C_index a i j \<and>
                       C1' x = alpha a * nn_row_sum a (j * ldb a) i)))) \<and>
         (\<exists>C1' C2' tr'.
            csrmmnt BLOCKSIZE WF_SIZE l offset ncol a (C1, []) = Some (C1', tr') \<and>
            csrmmnt BLOCKSIZE WF_SIZE l offset ncol a (C2, []) = Some (C2', tr') \<and>
            (\<forall>x. Read_C x \<notin> set tr' \<and>
                 (Write_C x \<in> set tr' \<longrightarrow>
                    C1' x = C2' x \<and>
                    (\<exists>i j. 0 \<le> i \<and> i < dim_M a \<and> offset \<le> j \<and> j < ncol \<and>
                       x = C_index a i j \<and>
                       C1' x = alpha a * nt_row_sum a j i))))"
proof -
  let ?Wn = "\<lambda>t. {x. Write_C x \<in> set (nn_thread_trace BLOCKSIZE WF_SIZE l a t)}"
  let ?Wt = "\<lambda>t. {x. Write_C x \<in> set (nt_thread_trace BLOCKSIZE WF_SIZE a offset ncol t)}"
  have "fold (nn_thread_C BLOCKSIZE WF_SIZE l a) (grid_threads l) C1 x =
        fold (nn_thread_C BLOCKSIZE WF_SIZE l a) (grid_threads l) C2 x"
    if "Write_C x \<in> set (concat (map (nn_thread_trace BLOCKSIZE WF_SIZE l a) (grid_threads l)))" for x
    using that nn_thread_beta0 [OF assms(2)]
    by (intro fold_agree [where W = ?Wn]) auto
  moreover have "fold (nt_thread_C BLOCKSIZE WF_SIZE a offset ncol) (grid_threads l) C1 x =
        fold (nt_thread_C BLOCKSIZE WF_SIZE a offset ncol) (grid_threads l) C2 x"
    if "Write_C x \<in> set (concat (map (nt_thread_trace BLOCKSIZE WF_SIZE a offset ncol) (grid_threads l)))" for x
    using that nt_thread_beta0 [OF assms]
    by (intro fold_agree [where W = ?Wt]) auto
  ultimately show ?thesis
    using nn_no_Read_C [OF assms(2)] nt_no_Read_C [OF assms]
      nn_launch_stored [OF assms, of _ C1] nt_launch_stored [OF assms, of _ offset ncol C1]
      final_store_beta0 [OF assms(2)]
    by (simp add: nn_closed [OF assms(1)] nt_closed [OF assms(1)])
qed

theorem beta_zero_ignores_C_witness:
  "launch_ok 2 2 ex_launch \<and> beta ex_identity = 0 \<and>
   final_store ex_identity 0 1 5 (zero_C, []) = (zero_C(1 := 5), [Write_C 1]) \<and>
   (\<exists>C1' C2' tr'.
      csrmmnn 2 2 ex_launch ex_identity (\<lambda>x. 7, []) = Some (C1', tr') \<and>
      csrmmnn 2 2 ex_launch ex_identity (\<lambda>x. 9, []) = Some (C2', tr') \<and>
      Write_C 0 \<in> set tr' \<and> C1' 0 = C2' 0 \<and> C1' 0 = 1) \<and>
   (\<exists>C1' C2' tr'.
      csrmmnt 2 2 ex_launch 0 2 ex_identity (\<lambda>x. 7, []) = Some (C1', tr') \<and>
      csrmmnt 2 2 ex_launch 0 2 ex_identity (\<lambda>x. 9, []) = Some (C2', tr') \<and>
      Write_C 0 \<in> set tr' \<and> C1' 0 = C2' 0 \<and> C1' 0 = 1)"
proof -
  have b: "beta ex_identity = 0" by (simp add: ex_identity_def)
  note th = beta_zero_ignores_C [OF ex_launch_ok b, where ?C1.0 = "\<lambda>x. 7"
      and ?C2.0 = "\<lambda>x. 9" and offset = 0 and ncol = 2]
  have run: "case csrmmnn 2 2 ex_launch ex_identity (\<lambda>x. 7, []) of
               None \<Rightarrow> False | Some s \<Rightarrow> Write_C 0 \<in> set (snd s)"
    "case csrmmnt 2 2 ex_launch 0 2 ex_identity (\<lambda>x. 7, []) of
               None \<Rightarrow> False | Some s \<Rightarrow> Write_C 0 \<in> set (snd s)"
    by code_simp+
  have idx: "C_index ex_identity i j = 0 \<longleftrightarrow> i = 0 \<and> j = 0" if "0 \<le> i" "0 \<le> j" "j < 2" for i j
  proof -
    have "C_index ex_identity i j = i * 2 + j"
      by (simp add: C_index_def dense_index_def ex_identity_def)
    then show ?thesis using that by presburger
  qed
  have v: "alpha ex_identity * nn_row_sum ex_identity (0 * ldb ex_identity) 0 = 1"
    "alpha ex_identity * nt_row_sum ex_identity 0 0 = 1"
    by (simp_all add: nn_row_sum_def nt_row_sum_def nn_term_def nt_term_def ex_identity_def
          row_begin_def row_finish_def col_of_def op_val_def sum_int_single)
  have f: "final_store ex_identity 0 1 5 (zero_C, []) = (zero_C(1 := 5), [Write_C 1])"
    using beta_zero_ignores_C [OF ex_launch_ok b, where row = 0 and col = 1 and sumv = 5
        and ?C1.0 = zero_C and tr = "[]", THEN conjunct1]
    by (simp add: C_index_def dense_index_def ex_identity_def)
  obtain C1' C2' tr' where n: "csrmmnn 2 2 ex_launch ex_identity (\<lambda>x. 7, []) = Some (C1', tr')"
      "csrmmnn 2 2 ex_launch ex_identity (\<lambda>x. 9, []) = Some (C2', tr')"
      "\<forall>x. Read_C x \<notin> set tr' \<and> (Write_C x \<in> set tr' \<longrightarrow> C1' x = C2' x \<and>
         (\<exists>i j. 0 \<le> i \<and> i < dim_M ex_identity \<and> 0 \<le> j \<and> j < dim_N ex_identity \<and>
            x = C_index ex_identity i j \<and>
            C1' x = alpha ex_identity * nn_row_sum ex_identity (j * ldb ex_identity) i))"
    using th [THEN conjunct2, THEN conjunct1] by (elim exE conjE)
  obtain D1' D2' tr'' where t: "csrmmnt 2 2 ex_launch 0 2 ex_identity (\<lambda>x. 7, []) = Some (D1', tr'')"
      "csrmmnt 2 2 ex_launch 0 2 ex_identity (\<lambda>x. 9, []) = Some (D2', tr'')"
      "\<forall>x. Read_C x \<notin> set tr'' \<and> (Write_C x \<in> set tr'' \<longrightarrow> D1' x = D2' x \<and>
         (\<exists>i j. 0 \<le> i \<and> i < dim_M ex_identity \<and> 0 \<le> j \<and> j < 2 \<and>
            x = C_index ex_identity i j \<and>
            D1' x = alpha ex_identity * nt_row_sum ex_identity j i))"
    using th [THEN conjunct2, THEN conjunct2] by (elim exE conjE)
  have w: "Write_C 0 \<in> set tr'" "Write_C 0 \<in> set tr''"
    using run n(1) t(1) by simp_all
  have N: "dim_N ex_identity = 2" by (simp add: ex_identity_def)
  have "C1' 0 = C2' 0 \<and> C1' 0 = 1"
    using n(3) [rule_format, THEN conjunct2, rule_format, OF w(1)] idx v(1)
    by (metis N)
  moreover have "D1' 0 = D2' 0 \<and> D1' 0 = 1"
    using t(3) [rule_format, THEN conjunct2, rule_format, OF w(2)] idx v(2)
    by metis
  ultimately show ?thesis
    using n(1,2) t(1,2) w b ex_launch_ok f by blast
qed

section \<open>Padding of the tiles\<close>

lemma csr_valid_col:
  assumes "csr_valid rows cols a" "0 \<le> r" "r < rows" "row_begin a r \<le> k" "k < row_finish a r"
  shows "0 \<le> col_of a k" and "col_of a k < cols"
  using assms by (auto simp: csr_valid_def)

lemma padded_slot:
  assumes "row_end \<le> k"
  shows "nn_shared_col a row_end k = 0" and "nt_shared_col a row_end k = 0"
    and "load_shared_val a row_end k = 0"
  using assms by (simp_all add: nn_shared_col_eq nt_shared_col_eq load_shared_val_eq)

text \<open>
  Claim C9. In a tile of a row of a valid CSR matrix, a slot whose source index is at or
  beyond the end of the row holds column 0 and value 0; scanning it leaves the sum as it
  is and reads B at an element of the logical matrix; and the tiled accumulation of the
  row is the sum over the nonzero entries of the row alone. This holds in nn and in nt.
\<close>

theorem padded_slots_are_neutral:
  assumes "csr_valid (dim_M a) (dim_K a) a" and "0 < WF_SIZE"
    and "0 \<le> row" "row < dim_M a"
    and "j \<in> set (strided (row_begin a row) (row_finish a row) WF_SIZE)"
    and "0 \<le> i" "i < WF_SIZE" "row_finish a row \<le> j + i"
    and "0 \<le> col" "col < ncol" "ncol \<le> dim_N a"
  shows "nn_shared_col a (row_finish a row) (j + i) = 0 \<and>
         nt_shared_col a (row_finish a row) (j + i) = 0 \<and>
         load_shared_val a (row_finish a row) (j + i) = 0 \<and>
         nn_scan_step a (\<lambda>i. nn_shared_col a (row_finish a row) (j + i))
           (\<lambda>i. load_shared_val a (row_finish a row) (j + i)) (col * ldb a) i (v, tr) =
           (v, tr @ [Read_B (col * ldb a)]) \<and>
         in_region rocsparse_order_column (ldb a) (dim_K a) (dim_N a) (col * ldb a) \<and>
         nt_scan_step a (\<lambda>i. nt_shared_col a (row_finish a row) (j + i))
           (\<lambda>i. load_shared_val a (row_finish a row) (j + i)) col ncol i (v, tr) =
           (v, tr @ [Read_B col]) \<and>
         in_region rocsparse_order_row (ldb a) (dim_K a) (dim_N a) col \<and>
         (\<exists>tr'. for_loop (row_begin a row) (row_finish a row) (\<lambda>j. True) WF_SIZE
                  (nn_tile WF_SIZE a lid col (col * ldb a) (row_finish a row)) (0, tr) =
                Some (\<Sum>k\<in>{row_begin a row..<row_finish a row}.
                        op_val (trans_A a) (csr_val a k) *
                        op_val (trans_B a) (buf_B a (col_of a k + col * ldb a)), tr')) \<and>
         (\<exists>tr'. for_loop (row_begin a row) (row_finish a row) (\<lambda>j. True) WF_SIZE
                  (nt_tile WF_SIZE a lid col ncol (row_finish a row)) (0, tr) =
                Some (\<Sum>k\<in>{row_begin a row..<row_finish a row}.
                        op_val (trans_A a) (csr_val a k) *
                        op_val (trans_B a) (buf_B a (col + ldb a * col_of a k)), tr'))"
proof -
  note pad = padded_slot [OF assms(8), of a]
  have first: "row_begin a row \<le> row_begin a row" "row_begin a row < row_finish a row"
    using strided_lower [OF assms(5)] by simp_all
  have K: "0 < dim_K a"
    using csr_valid_col [OF assms(1,3,4) first] by simp
  have colN: "col < dim_N a" using assms(10,11) by simp
  have "in_region rocsparse_order_column (ldb a) (dim_K a) (dim_N a)
          (dense_index rocsparse_order_column (ldb a) 0 col)"
    using K assms(9) colN by (intro in_regionI) simp_all
  then have inb_nn: "in_region rocsparse_order_column (ldb a) (dim_K a) (dim_N a) (col * ldb a)"
    by (simp add: dense_index_def)
  have "in_region rocsparse_order_row (ldb a) (dim_K a) (dim_N a)
          (dense_index rocsparse_order_row (ldb a) 0 col)"
    using K assms(9) colN by (intro in_regionI) simp_all
  then have inb_nt: "in_region rocsparse_order_row (ldb a) (dim_K a) (dim_N a) col"
    by (simp add: dense_index_def)
  have step_nn: "nn_scan_step a (\<lambda>i. nn_shared_col a (row_finish a row) (j + i))
           (\<lambda>i. load_shared_val a (row_finish a row) (j + i)) (col * ldb a) i (v, tr) =
           (v, tr @ [Read_B (col * ldb a)])"
    by (simp add: nn_scan_step_eq pad)
  have step_nt: "nt_scan_step a (\<lambda>i. nt_shared_col a (row_finish a row) (j + i))
           (\<lambda>i. load_shared_val a (row_finish a row) (j + i)) col ncol i (v, tr) =
           (v, tr @ [Read_B col])"
    using assms(10) by (simp add: nt_scan_step_eq pad)
  show ?thesis
    using pad inb_nn inb_nt step_nn step_nt colN assms(10)
    by (simp add: nn_tiles_closed [OF assms(2)] nt_tiles_closed [OF assms(2)]
          nn_term_def nt_term_def)
qed

theorem padded_slots_are_neutral_witness:
  "csr_valid (dim_M ex_identity) (dim_K ex_identity) ex_identity \<and>
   0 \<in> set (strided (row_begin ex_identity 0) (row_finish ex_identity 0) 2) \<and>
   row_finish ex_identity 0 \<le> 0 + 1 \<and>
   nn_shared_col ex_identity (row_finish ex_identity 0) (0 + 1) = 0 \<and>
   nn_scan_step ex_identity (\<lambda>i. nn_shared_col ex_identity (row_finish ex_identity 0) (0 + i))
     (\<lambda>i. load_shared_val ex_identity (row_finish ex_identity 0) (0 + i))
     (1 * ldb ex_identity) 1 (4, []) = (4, [Read_B (1 * ldb ex_identity)])"
proof -
  have v: "csr_valid (dim_M ex_identity) (dim_K ex_identity) ex_identity"
    by code_simp
  have t: "0 \<in> set (strided (row_begin ex_identity 0) (row_finish ex_identity 0) 2)"
    by code_simp
  have r: "row_finish ex_identity 0 \<le> 0 + 1" "(0::int) < dim_M ex_identity"
    "(1::int) < 2" "(2::int) \<le> dim_N ex_identity"
    by (simp_all add: row_finish_def ex_identity_def)
  show ?thesis
    using v t r
      padded_slots_are_neutral [where a = ex_identity and WF_SIZE = 2 and row = 0 and j = 0
        and i = 1 and col = 1 and ncol = 2 and v = 4 and tr = "[]" and lid = 0]
    by simp
qed

section \<open>Conjugation\<close>

lemma tn_shared_B_eq:
  "tn_shared_B WF_SIZE a bidy row i =
     (if i + bidy * WF_SIZE < dim_N a
      then op_val (trans_B a) (buf_B a (row + (i + bidy * WF_SIZE) * ldb a)) else 0)"
  by (simp add: tn_shared_B_def op_val_def rocsparse_conj_def Let_def)

lemma tt_shared_B_eq:
  "tt_shared_B WF_SIZE a bidy row i =
     (if i + bidy * WF_SIZE < dim_N a
      then op_val (trans_B a) (buf_B a (ldb a * row + (i + bidy * WF_SIZE))) else 0)"
  by (simp add: tt_shared_B_def op_val_def rocsparse_conj_def Let_def)

text \<open>
  Claim C4. A value \<open>x\<close> of A or of B enters a product as \<open>op_val m x\<close>, \<open>m\<close> being the
  transpose mode of its matrix: the conjugate of \<open>x\<close> when \<open>m\<close> is conjugate-transpose,
  \<open>x\<close> itself for the two other modes. In nn and nt the sum of a row is the sum of
  the products of these values; in tn and tt the slot of \<open>shared_B\<close> for a column below
  \<open>N\<close> holds such a value of B, and each atomic addition for the nonzero \<open>j\<close> adds
  \<open>alpha\<close> times such a value of A times that slot.
\<close>

theorem conjugation_by_mode:
  assumes "0 < WF_SIZE" and "col < ncol" "ncol \<le> dim_N a" and "i + bidy * WF_SIZE < dim_N a"
  shows "op_val m x = (if m = rocsparse_operation_conjugate_transpose then cnj x else x) \<and>
         (\<exists>tr'. for_loop row_start row_end (\<lambda>j. True) WF_SIZE
                  (nn_tile WF_SIZE a lid col colB row_end) (0, tr) =
                Some (\<Sum>k\<in>{row_start..<row_end}.
                        op_val (trans_A a) (csr_val a k) *
                        op_val (trans_B a) (buf_B a (col_of a k + colB)), tr')) \<and>
         (\<exists>tr'. for_loop row_start row_end (\<lambda>j. True) WF_SIZE
                  (nt_tile WF_SIZE a lid col ncol row_end) (0, tr) =
                Some (\<Sum>k\<in>{row_start..<row_end}.
                        op_val (trans_A a) (csr_val a k) *
                        op_val (trans_B a) (buf_B a (col + ldb a * col_of a k)), tr')) \<and>
         tn_shared_B WF_SIZE a bidy row i =
           op_val (trans_B a) (buf_B a (row + (i + bidy * WF_SIZE) * ldb a)) \<and>
         tt_shared_B WF_SIZE a bidy row i =
           op_val (trans_B a) (buf_B a (ldb a * row + (i + bidy * WF_SIZE))) \<and>
         (\<exists>tr'. scatter_entry WF_SIZE a bidy shared_B j (C, tr) =
                Some (apply_adds
                        (map (\<lambda>i. (C_index a (col_of a j) (i + bidy * WF_SIZE),
                                    alpha a * op_val (trans_A a) (csr_val a j) * shared_B i))
                           (strided 0 (min WF_SIZE (dim_N a - bidy * WF_SIZE)) 1)) C, tr'))"
proof -
  have "col < dim_N a" using assms(2,3) by simp
  then show ?thesis
    using assms(2,4)
    by (simp add: nn_tiles_closed [OF assms(1)] nt_tiles_closed [OF assms(1)] nn_term_def
          nt_term_def tn_shared_B_eq tt_shared_B_eq scatter_entry_closed scatter_adds_def
          C_index_def op_val_def)
qed

theorem conjugation_by_mode_witness:
  "(0::int) < 2 \<and> (0::int) < 1 \<and> 1 \<le> dim_N ex_conj \<and> 0 + 0 * 2 < dim_N ex_conj \<and>
   op_val (trans_A ex_conj) \<i> = - \<i> \<and>
   (\<exists>tr'. for_loop 0 1 (\<lambda>j. True) 2 (nn_tile 2 ex_conj 0 0 0 1) (0, []) = Some (- 2, tr')) \<and>
   tn_shared_B 2 ex_conj 0 0 0 = - (2 * \<i>)"
proof -
  have h: "(0::int) < 2" "(0::int) < 1" "1 \<le> dim_N ex_conj" "0 + 0 * 2 < dim_N ex_conj"
    by (simp_all add: ex_conj_def)
  have e: "trans_A ex_conj = rocsparse_operation_conjugate_transpose"
    "trans_B ex_conj = rocsparse_operation_conjugate_transpose"
    "csr_val ex_conj 0 = \<i>" "buf_B ex_conj 0 = 2 * \<i>" "col_of ex_conj 0 = 0" "ldb ex_conj = 1"
    by (simp_all add: ex_conj_def col_of_def)
  have ii: "\<i> * (2 * \<i>) = - 2"
    by (simp add: complex_eq_iff)
  show ?thesis
    using h conjugation_by_mode [OF h, where m = "trans_A ex_conj" and x = "\<i>" and row_start = 0
        and row_end = 1 and lid = 0 and colB = 0 and row = 0 and tr = "[]"
        and shared_B = "\<lambda>i. 0" and j = 0 and C = "\<lambda>x. 0"]
    by (simp add: e sum_int_single op_val_def ii)
qed

section \<open>The row-parallel kernels against the reference\<close>

lemma op_B_columns:
  "B_by_columns a \<Longrightarrow> op_B a k j = op_val (trans_B a) (buf_B a (k + j * ldb a))"
  by (cases "trans_B a"; cases "order a")
    (simp_all add: B_by_columns_def op_B_def mat_B_def dense_index_def op_val_def add.commute)

lemma op_B_rows:
  "B_by_rows a \<Longrightarrow> op_B a k j = op_val (trans_B a) (buf_B a (j + ldb a * k))"
  by (cases "trans_B a"; cases "order a")
    (simp_all add: B_by_rows_def op_B_def mat_B_def dense_index_def op_val_def add.commute
       mult.commute)

lemma dense_row_product:
  assumes "\<And>k. row_begin a r \<le> k \<Longrightarrow> k < row_finish a r \<Longrightarrow> 0 \<le> col_of a k \<and> col_of a k < n"
  shows "(\<Sum>c\<in>{0..<n}. csr_dense a r c * f c) =
         (\<Sum>k\<in>{row_begin a r..<row_finish a r}. csr_val a k * f (col_of a k))"
proof -
  have "(\<Sum>c\<in>{0..<n}. csr_dense a r c * f c) =
        (\<Sum>c\<in>{0..<n}. \<Sum>k\<in>{row_begin a r..<row_finish a r}.
           if col_of a k = c then csr_val a k * f c else 0)"
    by (simp add: csr_dense_def sum_distrib_right if_distrib [of "\<lambda>v. v * _"] cong: if_cong)
  also have "\<dots> = (\<Sum>k\<in>{row_begin a r..<row_finish a r}. \<Sum>c\<in>{0..<n}.
           if col_of a k = c then csr_val a k * f c else 0)"
    by (rule sum.swap)
  also have "\<dots> = (\<Sum>k\<in>{row_begin a r..<row_finish a r}. csr_val a k * f (col_of a k))"
  proof (rule sum.cong [OF refl])
    fix k assume "k \<in> {row_begin a r..<row_finish a r}"
    then have "col_of a k \<in> {0..<n}" using assms [of k] by simp
    then show "(\<Sum>c\<in>{0..<n}. if col_of a k = c then csr_val a k * f c else 0) =
               csr_val a k * f (col_of a k)"
      by (simp add: sum.delta')
  qed
  finally show ?thesis .
qed

lemma nn_row_sum_reference:
  assumes "csr_valid (dim_M a) (dim_K a) a" "trans_A a = rocsparse_operation_none"
    and "B_by_columns a" "0 \<le> i" "i < dim_M a"
  shows "nn_row_sum a (j * ldb a) i = (\<Sum>k\<in>{0..<dim_K a}. op_A a i k * op_B a k j)"
proof -
  have "(\<Sum>k\<in>{0..<dim_K a}. op_A a i k * op_B a k j) =
        (\<Sum>c\<in>{0..<dim_K a}. csr_dense a i c * op_val (trans_B a) (buf_B a (c + j * ldb a)))"
    using assms(2,3) by (simp add: op_A_def op_B_columns)
  also have "\<dots> = (\<Sum>k\<in>{row_begin a i..<row_finish a i}.
                     csr_val a k * op_val (trans_B a) (buf_B a (col_of a k + j * ldb a)))"
    using csr_valid_col [OF assms(1,4,5)] by (intro dense_row_product) simp
  finally show ?thesis
    using assms(2) by (simp add: nn_row_sum_def nn_term_def op_val_def)
qed

lemma nt_row_sum_reference:
  assumes "csr_valid (dim_M a) (dim_K a) a" "trans_A a = rocsparse_operation_none"
    and "B_by_rows a" "0 \<le> i" "i < dim_M a"
  shows "nt_row_sum a j i = (\<Sum>k\<in>{0..<dim_K a}. op_A a i k * op_B a k j)"
proof -
  have "(\<Sum>k\<in>{0..<dim_K a}. op_A a i k * op_B a k j) =
        (\<Sum>c\<in>{0..<dim_K a}. csr_dense a i c * op_val (trans_B a) (buf_B a (j + ldb a * c)))"
    using assms(2,3) by (simp add: op_A_def op_B_rows)
  also have "\<dots> = (\<Sum>k\<in>{row_begin a i..<row_finish a i}.
                     csr_val a k * op_val (trans_B a) (buf_B a (j + ldb a * col_of a k)))"
    using csr_valid_col [OF assms(1,4,5)] by (intro dense_row_product) simp
  finally show ?thesis
    using assms(2) by (simp add: nt_row_sum_def nt_term_def op_val_def)
qed

text \<open>
  Claim C2, as stated, fails: on the same buffer B the two kernels read different
  elements (nn reads \<open>B[k + col * ldb]\<close>, nt reads \<open>B[col + ldb * k]\<close>). For a 1 by 2
  matrix A with the single entry \<open>A(0, 0) = 1\<close> and \<open>B = [1, 2, 3, 4]\<close> with \<open>ldb = 2\<close>,
  element \<open>(0, 1)\<close> of C is 3 after nn and 2 after nt.
\<close>

theorem nn_nt_differ_on_same_B:
  "result_at 1 (csrmmnn 2 2 ex_launch ex_nn_nt (zero_C, [])) = Some 3 \<and>
   result_at 1 (csrmmnt 2 2 ex_launch 0 (dim_N ex_nn_nt) ex_nn_nt (zero_C, [])) = Some 2"
  by code_simp

lemma nt_row_sum_transposed:
  assumes "csr_valid (dim_M a) (dim_K a) a" "B_transposed a Bt ldbt"
    and "0 \<le> i" "i < dim_M a" "0 \<le> j" "j < dim_N a"
  shows "nt_row_sum (a\<lparr>buf_B := Bt, ldb := ldbt\<rparr>) j i = nn_row_sum a (j * ldb a) i"
proof -
  have "Bt (j + ldbt * col_of a k) = buf_B a (col_of a k + j * ldb a)"
    if "k \<in> {row_begin a i..<row_finish a i}" for k
    using csr_valid_col [OF assms(1,3,4), of k] that assms(2,5,6)
    by (simp add: B_transposed_def)
  moreover have "row_begin (a\<lparr>buf_B := Bt, ldb := ldbt\<rparr>) i = row_begin a i"
    "row_finish (a\<lparr>buf_B := Bt, ldb := ldbt\<rparr>) i = row_finish a i"
    "col_of (a\<lparr>buf_B := Bt, ldb := ldbt\<rparr>) = col_of a"
    by (simp_all add: row_begin_def row_finish_def col_of_def fun_eq_iff)
  ultimately show ?thesis
    unfolding nt_row_sum_def nn_row_sum_def
    by (intro sum.cong) (simp_all add: nt_term_def nn_term_def)
qed

lemma in_regionE:
  assumes "in_region ord ld m n x"
  obtains i j where "0 \<le> i" "i < m" "0 \<le> j" "j < n" "x = dense_index ord ld i j"
  using assms unfolding in_region_def by blast

text \<open>
  Claim C2, amended. When the nt kernel is given the logical matrix that nn reads at
  \<open>B[k + j * ldb]\<close> in the transposed pattern \<open>Bt[j + ldbt * k]\<close>, then, run over all
  columns (offset 0, \<open>ncol = N\<close>), it leaves the same buffer C as nn.
\<close>

theorem nt_equals_nn_on_transposed_B:
  assumes "nn_launch BLOCKSIZE WF_SIZE l a" and "nt_launch BLOCKSIZE WF_SIZE l' a"
    and "csr_valid (dim_M a) (dim_K a) a"
    and "ld_ok (order a) (ldc a) (dim_M a) (dim_N a)"
    and "B_transposed a Bt ldbt"
  shows "\<exists>C' tr1 tr2.
           csrmmnn BLOCKSIZE WF_SIZE l a (C, tr) = Some (C', tr1) \<and>
           csrmmnt BLOCKSIZE WF_SIZE l' 0 (dim_N a) (a\<lparr>buf_B := Bt, ldb := ldbt\<rparr>) (C, tr) =
             Some (C', tr2)"
proof -
  let ?a' = "a\<lparr>buf_B := Bt, ldb := ldbt\<rparr>"
  let ?Cn = "fold (nn_thread_C BLOCKSIZE WF_SIZE l a) (grid_threads l) C"
  let ?Ct = "fold (nt_thread_C BLOCKSIZE WF_SIZE ?a' 0 (dim_N a)) (grid_threads l') C"
  have ok: "launch_ok BLOCKSIZE WF_SIZE l" "launch_ok BLOCKSIZE WF_SIZE l'"
    and cover: "dim_N a \<le> hipGridDim_y l * WF_SIZE"
      "dim_M ?a' \<le> hipGridDim_x l' * BLOCKSIZE div WF_SIZE" "hipGridDim_y l' = 1"
    using assms(1,2) by (simp_all add: nn_launch_def nt_launch_def)
  have ld': "ld_ok (order ?a') (ldc ?a') (dim_M ?a') (dim_N a)"
    using assms(4) by simp
  have "?Cn x = ?Ct x" for x
  proof (cases "in_region (order a) (ldc a) (dim_M a) (dim_N a) x")
    case True
    then obtain i j where ij: "0 \<le> i" "i < dim_M a" "0 \<le> j" "j < dim_N a"
      and x: "x = dense_index (order a) (ldc a) i j"
      by (rule in_regionE)
    have "?Cn x = store_value a (nn_row_sum a (j * ldb a) i) (C x)"
      unfolding x by (rule nn_at [OF ok(1) assms(4) cover(1) ij])
    moreover have "?Ct x = store_value ?a' (nt_row_sum ?a' j i) (C x)"
      using nt_at [OF ok(2) ld' cover(2,3), of 0 i j C] ij by (simp add: x)
    moreover have "store_value ?a' s c = store_value a s c" for s c
      by (simp add: store_value_def)
    ultimately show ?thesis
      using nt_row_sum_transposed [OF assms(3,5) ij] by simp
  next
    case False
    then have "?Cn x = C x"
      by (intro nn_frame [OF ok(1)])
    moreover have "?Ct x = C x"
      using False by (intro nt_frame [OF ok(2)]) simp_all
    ultimately show ?thesis by simp
  qed
  then have "?Cn = ?Ct" by (rule ext)
  then show ?thesis
    by (simp add: nn_closed [OF ok(1)] nt_closed [OF ok(2)])
qed

theorem nt_equals_nn_on_transposed_B_witness:
  "nn_launch 2 2 ex_launch ex_nn_nt \<and> nt_launch 2 2 ex_launch ex_nn_nt \<and>
   csr_valid (dim_M ex_nn_nt) (dim_K ex_nn_nt) ex_nn_nt \<and>
   ld_ok (order ex_nn_nt) (ldc ex_nn_nt) (dim_M ex_nn_nt) (dim_N ex_nn_nt) \<and>
   B_transposed ex_nn_nt (\<lambda>x. if x = 1 then 3 else if x = 2 then 2 else x + 1) 2 \<and>
   (\<exists>C' tr1 tr2.
      csrmmnn 2 2 ex_launch ex_nn_nt (\<lambda>x. 0, []) = Some (C', tr1) \<and>
      csrmmnt 2 2 ex_launch 0 2
        (ex_nn_nt\<lparr>buf_B := (\<lambda>x. if x = 1 then 3 else if x = 2 then 2 else x + 1), ldb := 2\<rparr>)
        (\<lambda>x. 0, []) = Some (C', tr2) \<and> C' 1 = 3)"
proof -
  have h: "nn_launch 2 2 ex_launch ex_nn_nt" "nt_launch 2 2 ex_launch ex_nn_nt"
    using ex_launch_ok by (simp_all add: nn_launch_def nt_launch_def ex_launch_def ex_nn_nt_def)
  have v: "csr_valid (dim_M ex_nn_nt) (dim_K ex_nn_nt) ex_nn_nt"
    "ld_ok (order ex_nn_nt) (ldc ex_nn_nt) (dim_M ex_nn_nt) (dim_N ex_nn_nt)"
    "B_transposed ex_nn_nt (\<lambda>x. if x = 1 then 3 else if x = 2 then 2 else x + 1) 2"
    by code_simp+
  have run: "map_option (\<lambda>s. fst s 1) (csrmmnn 2 2 ex_launch ex_nn_nt (\<lambda>x. 0, [])) = Some 3"
    by code_simp
  have n: "dim_N ex_nn_nt = 2" by (simp add: ex_nn_nt_def)
  obtain C' tr1 tr2 where r: "csrmmnn 2 2 ex_launch ex_nn_nt (\<lambda>x. 0, []) = Some (C', tr1)"
    "csrmmnt 2 2 ex_launch 0 2
        (ex_nn_nt\<lparr>buf_B := (\<lambda>x. if x = 1 then 3 else if x = 2 then 2 else x + 1), ldb := 2\<rparr>)
        (\<lambda>x. 0, []) = Some (C', tr2)"
    using nt_equals_nn_on_transposed_B [OF h v, of "\<lambda>x. 0" "[]"] n by auto
  have "C' 1 = 3" using run r(1) by simp
  then show ?thesis using h v r by blast
qed

section \<open>The tt kernel against the tn kernel\<close>

lemma scatter_adds_cong:
  assumes "\<And>i. 0 \<le> i \<Longrightarrow> i + bidy * WF_SIZE < dim_N a \<Longrightarrow> sB i = sB' i"
  shows "scatter_adds WF_SIZE (a\<lparr>buf_B := Bt, ldb := ldbt\<rparr>) bidy sB' j =
         scatter_adds WF_SIZE a bidy sB j"
  using assms by (auto simp: scatter_adds_def col_of_def strided_mem)

lemma row_adds_cong:
  assumes "\<And>i. 0 \<le> i \<Longrightarrow> i + bidy * WF_SIZE < dim_N a \<Longrightarrow> sB i = sB' i"
  shows "row_adds WF_SIZE (a\<lparr>buf_B := Bt, ldb := ldbt\<rparr>) bidy sB' lid row =
         row_adds WF_SIZE a bidy sB lid row"
proof -
  have "scatter_adds WF_SIZE (a\<lparr>buf_B := Bt, ldb := ldbt\<rparr>) bidy sB' =
        scatter_adds WF_SIZE a bidy sB"
    using scatter_adds_cong [where bidy = bidy and WF_SIZE = WF_SIZE and a = a and sB = sB
      and sB' = sB' and Bt = Bt and ldbt = ldbt] assms
    by (intro ext) simp
  then show ?thesis
    by (simp add: row_adds_def row_begin_def row_finish_def)
qed

lemma scatter_trace_no_Read_B:
  "filter (\<lambda>e. \<not> is_Read_B e) (scatter_trace WF_SIZE a bidy j) = scatter_trace WF_SIZE a bidy j"
  by (simp add: scatter_trace_def filter_map o_def)

lemma row_trace_no_Read_B:
  "filter (\<lambda>e. \<not> is_Read_B e) (row_trace WF_SIZE a bidy addr lid row) =
     [Read_row_ptr row, Read_row_ptr (row + 1)] @
     concat (map (scatter_trace WF_SIZE a bidy)
               (strided (row_begin a row + lid) (row_finish a row) WF_SIZE))"
  by (simp add: row_trace_def filter_concat o_def scatter_trace_no_Read_B)

lemma update_B_irrelevant:
  "scatter_trace WF_SIZE (a\<lparr>buf_B := Bt, ldb := ldbt\<rparr>) bidy = scatter_trace WF_SIZE a bidy"
  "row_begin (a\<lparr>buf_B := Bt, ldb := ldbt\<rparr>) = row_begin a"
  "row_finish (a\<lparr>buf_B := Bt, ldb := ldbt\<rparr>) = row_finish a"
  by (simp_all add: scatter_trace_def col_of_def row_begin_def row_finish_def fun_eq_iff)

lemma shared_B_transposed:
  assumes "B_transposed a Bt ldbt" "0 \<le> row" "row < dim_K a" "0 \<le> i" "0 \<le> bidy" "0 \<le> WF_SIZE"
    and "i + bidy * WF_SIZE < dim_N a"
  shows "tn_shared_B WF_SIZE a bidy row i =
         tt_shared_B WF_SIZE (a\<lparr>buf_B := Bt, ldb := ldbt\<rparr>) bidy row i"
proof -
  have "0 \<le> i + bidy * WF_SIZE" using assms(4,5,6) by simp
  then have "Bt (i + bidy * WF_SIZE + ldbt * row) = buf_B a (row + (i + bidy * WF_SIZE) * ldb a)"
    using assms(1,2,3,7) by (simp add: B_transposed_def)
  then show ?thesis
    using assms(7) by (simp add: tn_shared_B_eq tt_shared_B_eq add.commute)
qed

lemma thread_rows_range:
  assumes "launch_ok BLOCKSIZE WF_SIZE l" "t \<in> set (grid_threads l)"
    and "r \<in> set (thread_rows BLOCKSIZE WF_SIZE l rows t)"
  shows "0 \<le> r" and "r < rows"
  using strided_lower [OF assms(3) [unfolded thread_rows_def]]
    thread_wave_range(1) [OF assms(1,2)] by (simp_all add: thread_gid_def)

text \<open>
  Claim C6. The tt kernel on a buffer that stores B in the transposed pattern performs
  the additions of the tn kernel on B in its own pattern: for the same launch the two
  kernels return the same buffer C, and their traces are the same once the reads of B
  are left out.
\<close>

theorem tt_equals_tn_on_transposed_B:
  assumes "launch_ok BLOCKSIZE WF_SIZE l" and "B_transposed a Bt ldbt"
  shows "\<exists>C' tr1 tr2.
           csrmmtn BLOCKSIZE WF_SIZE l a (C, tr) = Some (C', tr1) \<and>
           csrmmtt BLOCKSIZE WF_SIZE l (a\<lparr>buf_B := Bt, ldb := ldbt\<rparr>) (C, tr) = Some (C', tr2) \<and>
           filter (\<lambda>e. \<not> is_Read_B e) tr1 = filter (\<lambda>e. \<not> is_Read_B e) tr2"
proof -
  let ?a' = "a\<lparr>buf_B := Bt, ldb := ldbt\<rparr>"
  note w = launch_ok_nwf [OF assms(1)]
  have adds: "tt_thread_adds BLOCKSIZE WF_SIZE l ?a' t = tn_thread_adds BLOCKSIZE WF_SIZE l a t"
    if t: "t \<in> set (grid_threads l)" for t
    unfolding tt_thread_adds_def tn_thread_adds_def
  proof (intro arg_cong [where f = concat] map_cong row_adds_cong)
    show "thread_rows BLOCKSIZE WF_SIZE l (dim_K ?a') t = thread_rows BLOCKSIZE WF_SIZE l (dim_K a) t"
      by simp
    fix r i
    assume "r \<in> set (thread_rows BLOCKSIZE WF_SIZE l (dim_K a) t)"
      and "0 \<le> i" "i + hipBlockIdx_y t * WF_SIZE < dim_N a"
    then show "tn_shared_B WF_SIZE a (hipBlockIdx_y t) r i =
               tt_shared_B WF_SIZE ?a' (hipBlockIdx_y t) r i"
      using thread_rows_range [OF assms(1) t] t w(1)
      by (intro shared_B_transposed [OF assms(2)]) (simp_all add: grid_threads_mem)
  qed
  have traces: "filter (\<lambda>e. \<not> is_Read_B e) (tt_thread_trace BLOCKSIZE WF_SIZE l ?a' t) =
                filter (\<lambda>e. \<not> is_Read_B e) (tn_thread_trace BLOCKSIZE WF_SIZE l a t)" for t
    by (simp add: tt_thread_trace_def tn_thread_trace_def filter_concat o_def
          row_trace_no_Read_B update_B_irrelevant)
  have "concat (map (tt_thread_adds BLOCKSIZE WF_SIZE l ?a') (grid_threads l)) =
        concat (map (tn_thread_adds BLOCKSIZE WF_SIZE l a) (grid_threads l))"
    using adds by (intro arg_cong [where f = concat] map_cong) simp_all
  then show ?thesis
    using traces
    by (simp add: tn_closed [OF assms(1)] tt_closed [OF assms(1)] filter_concat o_def)
qed

theorem tt_equals_tn_on_transposed_B_witness:
  "launch_ok 2 2 ex_launch \<and>
   B_transposed ex_tn_wide (\<lambda>x. if x = 1 then 3 else if x = 2 then 2 else x + 1) 2 \<and>
   (\<exists>C' tr1 tr2.
      csrmmtn 2 2 ex_launch ex_tn_wide (\<lambda>x. 0, []) = Some (C', tr1) \<and>
      csrmmtt 2 2 ex_launch
        (ex_tn_wide\<lparr>buf_B := (\<lambda>x. if x = 1 then 3 else if x = 2 then 2 else x + 1), ldb := 2\<rparr>)
        (\<lambda>x. 0, []) = Some (C', tr2) \<and> C' 1 = 18)"
proof -
  have v: "B_transposed ex_tn_wide (\<lambda>x. if x = 1 then 3 else if x = 2 then 2 else x + 1) 2"
    by code_simp
  have run: "map_option (\<lambda>s. fst s 1) (csrmmtn 2 2 ex_launch ex_tn_wide (\<lambda>x. 0, [])) = Some 18"
    by code_simp
  obtain C' tr1 tr2 where r: "csrmmtn 2 2 ex_launch ex_tn_wide (\<lambda>x. 0, []) = Some (C', tr1)"
    "csrmmtt 2 2 ex_launch
        (ex_tn_wide\<lparr>buf_B := (\<lambda>x. if x = 1 then 3 else if x = 2 then 2 else x + 1), ldb := 2\<rparr>)
        (\<lambda>x. 0, []) = Some (C', tr2)"
    using tt_equals_tn_on_transposed_B [OF ex_launch_ok v, of "\<lambda>x. 0" "[]"] by auto
  have "C' 1 = 18" using run r(1) by simp
  then show ?thesis using ex_launch_ok v r by blast
qed

section \<open>Sums of atomic additions\<close>

lemma apply_adds_hits: "apply_adds us C x = C x + hits x us"
  by (simp add: apply_adds_at hits_def)

text \<open>
  The atomic additions of a launch commute: every order of the same additions leaves
  the same buffer, so the fixed order of \<open>run_grid\<close> stands for every schedule.
\<close>

lemma hits_mset:
  assumes "mset us = mset vs"
  shows "hits x us = hits x vs"
proof -
  have "hits x ws = sum_mset (image_mset snd (filter_mset (\<lambda>u. fst u = x) (mset ws)))" for ws
    unfolding hits_def
    by (metis mset_filter mset_map sum_mset_sum_list)
  then show ?thesis using assms by simp
qed

lemma apply_adds_any_order:
  assumes "mset us = mset vs"
  shows "apply_adds us C = apply_adds vs C"
  using hits_mset [OF assms] by (intro ext) (simp add: apply_adds_hits)

lemma hits_concat_map:
  assumes "distinct xs"
  shows "hits x (concat (map f xs)) = (\<Sum>y\<in>set xs. hits x (f y))"
proof -
  have "hits x (concat (map f xs)) = sum_list (map (\<lambda>y. hits x (f y)) xs)"
    by (induction xs) (simp_all add: hits_def)
  then show ?thesis
    using assms by (simp add: sum_list_distinct_conv_sum_set)
qed

lemma hits_map:
  assumes "distinct xs"
  shows "hits x (map (\<lambda>i. (g i, h i)) xs) = (\<Sum>i\<in>set xs. if g i = x then h i else 0)"
proof -
  have "hits x (map (\<lambda>i. (g i, h i)) xs) = sum_list (map (\<lambda>i. if g i = x then h i else 0) xs)"
    by (induction xs) (simp_all add: hits_def)
  then show ?thesis
    using assms by (simp add: sum_list_distinct_conv_sum_set)
qed

lemma strided_partition:
  fixes f :: "int \<Rightarrow> complex"
  assumes "0 < n"
  shows "(\<Sum>w\<in>{0..<n}. \<Sum>x\<in>set (strided (a + w) b n). f x) = (\<Sum>x\<in>{a..<b}. f x)"
proof -
  have "(\<Sum>w\<in>{0..<n}. \<Sum>x\<in>set (strided (a + w) b n). f x) =
        (\<Sum>(w, x)\<in>(SIGMA w:{0..<n}. set (strided (a + w) b n)). f x)"
    by (rule sum.Sigma) simp_all
  also have "\<dots> = (\<Sum>x\<in>{a..<b}. f x)"
  proof (rule sum.reindex_bij_witness [where i = "\<lambda>x. ((x - a) mod n, x)" and j = snd])
    fix p assume p: "p \<in> (SIGMA w:{0..<n}. set (strided (a + w) b n))"
    obtain w x where px: "p = (w, x)" by (cases p)
    have w: "0 \<le> w" "w < n" and x: "a + w \<le> x" "x < b" "n dvd (x - (a + w))"
      using p px by (simp_all add: strided_mem)
    obtain q where q: "x - (a + w) = n * q" using x(3) by (auto simp: dvd_def)
    have "x - a = w + n * q" using q by simp
    then have "(x - a) mod n = w" using w by simp
    then show "((snd p - a) mod n, snd p) = p" by (simp add: px)
    show "snd p \<in> {a..<b}" using x w by (simp add: px)
    show "f (snd p) = (case p of (w, x) \<Rightarrow> f x)" by (simp add: px)
  next
    fix x assume x: "x \<in> {a..<b}"
    show "snd ((x - a) mod n, x) = x" by simp
    have "(x - a) mod n \<le> x - a" using x assms by (simp add: zmod_le_nonneg_dividend)
    moreover have "n dvd (x - (a + (x - a) mod n))"
    proof -
      have "x - (a + (x - a) mod n) = (x - a) - (x - a) mod n" by simp
      moreover have "n dvd ((x - a) - (x - a) mod n)" by (rule dvd_minus_mod)
      ultimately show ?thesis by metis
    qed
    ultimately show "((x - a) mod n, x) \<in> (SIGMA w:{0..<n}. set (strided (a + w) b n))"
      using x assms by (simp add: strided_mem)
  qed
  finally show ?thesis .
qed

lemma wave_lane_sum:
  fixes F :: "int \<Rightarrow> int \<Rightarrow> complex"
  assumes "0 < w"
  shows "(\<Sum>g\<in>{0..<n * w}. F (g div w) (g mod w)) = (\<Sum>q\<in>{0..<n}. \<Sum>r\<in>{0..<w}. F q r)"
proof -
  have "(\<Sum>q\<in>{0..<n}. \<Sum>r\<in>{0..<w}. F q r) = (\<Sum>(q, r)\<in>{0..<n} \<times> {0..<w}. F q r)"
    by (rule sum.cartesian_product)
  also have "\<dots> = (\<Sum>g\<in>{0..<n * w}. F (g div w) (g mod w))"
  proof (rule sum.reindex_bij_witness [where i = "\<lambda>g. (g div w, g mod w)"
        and j = "\<lambda>(q, r). q * w + r"])
    fix p assume p: "p \<in> {0..<n} \<times> {0..<w}"
    obtain q r where pq: "p = (q, r)" by (cases p)
    have q: "0 \<le> q" "q + 1 \<le> n" and r: "0 \<le> r" "r < w" using p pq by auto
    show "((case p of (q, r) \<Rightarrow> q * w + r) div w, (case p of (q, r) \<Rightarrow> q * w + r) mod w) = p"
      using r by (simp add: pq)
    have "(q + 1) * w \<le> n * w" using q(2) assms by (intro mult_right_mono) auto
    then show "(case p of (q, r) \<Rightarrow> q * w + r) \<in> {0..<n * w}"
      using q r assms by (simp add: pq algebra_simps)
    show "F ((case p of (q, r) \<Rightarrow> q * w + r) div w) ((case p of (q, r) \<Rightarrow> q * w + r) mod w) =
          (case p of (q, r) \<Rightarrow> F q r)"
      using r by (simp add: pq)
  next
    fix g assume g: "g \<in> {0..<n * w}"
    show "(case (g div w, g mod w) of (q, r) \<Rightarrow> q * w + r) = g" by simp
    have "g div w < n" using g assms by (intro int_div_less) auto
    moreover have "0 \<le> g div w" using g assms by (simp add: pos_imp_zdiv_nonneg_iff)
    ultimately show "(g div w, g mod w) \<in> {0..<n} \<times> {0..<w}" using assms by simp
  qed
  finally show ?thesis by simp
qed

lemma threads_sum:
  fixes S :: "int \<Rightarrow> complex"
  assumes ok: "launch_ok BLOCKSIZE WF_SIZE l" and b: "0 \<le> b" "b < hipGridDim_y l"
  shows "(\<Sum>t\<in>set (grid_threads l). if hipBlockIdx_y t = b then S (thread_gid BLOCKSIZE t) else 0) =
         (\<Sum>g\<in>{0..<hipGridDim_x l * BLOCKSIZE}. S g)"
proof -
  let ?T = "{t \<in> set (grid_threads l). hipBlockIdx_y t = b}"
  have "(\<Sum>t\<in>set (grid_threads l). if hipBlockIdx_y t = b then S (thread_gid BLOCKSIZE t) else 0) =
        (\<Sum>t\<in>?T. S (thread_gid BLOCKSIZE t))"
    by (simp add: sum.inter_filter [symmetric])
  also have "\<dots> = (\<Sum>g\<in>{0..<hipGridDim_x l * BLOCKSIZE}. S g)"
  proof (rule sum.reindex_bij_witness [where j = "thread_gid BLOCKSIZE"
        and i = "\<lambda>g. \<lparr>hipBlockIdx_x = g div BLOCKSIZE, hipBlockIdx_y = b,
                       hipThreadIdx_x = g mod BLOCKSIZE, hipThreadIdx_y = 0\<rparr>"])
    have bs: "0 < BLOCKSIZE" "hipBlockDim_x l = BLOCKSIZE" "hipBlockDim_y l = 1"
      using ok by (auto simp: launch_ok_def)
    fix g assume g: "g \<in> {0..<hipGridDim_x l * BLOCKSIZE}"
    let ?t = "\<lparr>hipBlockIdx_x = g div BLOCKSIZE, hipBlockIdx_y = b,
               hipThreadIdx_x = g mod BLOCKSIZE, hipThreadIdx_y = 0\<rparr>"
    show "thread_gid BLOCKSIZE ?t = g" by (simp add: thread_gid_def)
    have "g div BLOCKSIZE < hipGridDim_x l" using g bs(1) by (intro int_div_less) auto
    moreover have "0 \<le> g div BLOCKSIZE" using g bs(1) by (simp add: pos_imp_zdiv_nonneg_iff)
    ultimately show "?t \<in> ?T" using bs b by (simp add: grid_threads_mem)
  next
    fix t assume t: "t \<in> ?T"
    then have tt: "t \<in> set (grid_threads l)" and tb: "hipBlockIdx_y t = b" by simp_all
    show "thread_gid BLOCKSIZE t \<in> {0..<hipGridDim_x l * BLOCKSIZE}"
      using thread_gid_range [OF ok tt] by simp
    have x: "0 \<le> hipThreadIdx_x t" "hipThreadIdx_x t < BLOCKSIZE" "hipThreadIdx_y t = 0"
      using tt ok by (auto simp: grid_threads_mem launch_ok_def)
    show "\<lparr>hipBlockIdx_x = thread_gid BLOCKSIZE t div BLOCKSIZE, hipBlockIdx_y = b,
           hipThreadIdx_x = thread_gid BLOCKSIZE t mod BLOCKSIZE, hipThreadIdx_y = 0\<rparr> = t"
      using x tb by (simp add: thread_gid_def)
    show "S (thread_gid BLOCKSIZE t) = S (thread_gid BLOCKSIZE t)" by simp
  qed
  finally show ?thesis .
qed

lemma scatter_hits:
  assumes ld: "ld_ok (order a) (ldc a) (dim_M a) (dim_N a)"
    and c: "0 \<le> col_of a e" "col_of a e < dim_M a"
    and i: "0 \<le> i" "i < dim_M a" and j: "0 \<le> j" "j < dim_N a"
    and b: "0 \<le> bidy" and w: "0 < WF_SIZE"
  shows "hits (C_index a i j) (scatter_adds WF_SIZE a bidy sB e) =
         (if bidy = j div WF_SIZE then scatter_term a i (sB (j mod WF_SIZE)) e else 0)"
proof -
  let ?n = "min WF_SIZE (dim_N a - bidy * WF_SIZE)"
  let ?v = "alpha a * op_val (trans_A a) (csr_val a e)"
  have eq: "dense_index (order a) (ldc a) (col_of a e) (i' + bidy * WF_SIZE) = C_index a i j \<longleftrightarrow>
            col_of a e = i \<and> i' + bidy * WF_SIZE = j" if "i' \<in> {0..<?n}" for i'
  proof -
    have "0 \<le> i' + bidy * WF_SIZE" "i' + bidy * WF_SIZE < dim_N a"
      using that b w by simp_all
    then show ?thesis
      using dense_index_inj [OF ld i j c, of "i' + bidy * WF_SIZE"]
      by (auto simp: C_index_def)
  qed
  have "hits (C_index a i j) (scatter_adds WF_SIZE a bidy sB e) =
        (\<Sum>i'\<in>{0..<?n}. if dense_index (order a) (ldc a) (col_of a e) (i' + bidy * WF_SIZE) =
                              C_index a i j then ?v * sB i' else 0)"
    unfolding scatter_adds_def
    by (subst hits_map [OF distinct_strided]) (simp add: set_strided_unit)
  also have "\<dots> = (\<Sum>i'\<in>{0..<?n}. if col_of a e = i \<and> i' + bidy * WF_SIZE = j then ?v * sB i' else 0)"
    using eq by (intro sum.cong) simp_all
  also have "\<dots> = (if bidy = j div WF_SIZE then scatter_term a i (sB (j mod WF_SIZE)) e else 0)"
  proof (cases "bidy = j div WF_SIZE")
    case True
    have split: "j mod WF_SIZE + bidy * WF_SIZE = j" using True by simp
    have m: "j mod WF_SIZE \<in> {0..<?n}"
      using w j split by simp
    have "i' + bidy * WF_SIZE = j \<longleftrightarrow> j mod WF_SIZE = i'" for i'
      using split by auto
    then have "(\<Sum>i'\<in>{0..<?n}. if col_of a e = i \<and> i' + bidy * WF_SIZE = j then ?v * sB i' else 0) =
               (\<Sum>i'\<in>{0..<?n}. if j mod WF_SIZE = i' then (if col_of a e = i then ?v * sB i' else 0) else 0)"
      by (intro sum.cong) auto
    also have "\<dots> = (if col_of a e = i then ?v * sB (j mod WF_SIZE) else 0)"
      using m by (simp add: sum.delta')
    finally show ?thesis using True by (simp add: scatter_term_def)
  next
    case False
    have "i' + bidy * WF_SIZE \<noteq> j" if "i' \<in> {0..<?n}" for i'
    proof
      assume "i' + bidy * WF_SIZE = j"
      then have "j div WF_SIZE = bidy" using that w by auto
      then show False using False by simp
    qed
    then have "(\<Sum>i'\<in>{0..<?n}. if col_of a e = i \<and> i' + bidy * WF_SIZE = j then ?v * sB i' else 0) = 0"
      by (intro sum.neutral) auto
    then show ?thesis using False by simp
  qed
  finally show ?thesis .
qed

lemma grid_hits:
  fixes bval :: "int \<Rightarrow> complex"
  assumes ok: "launch_ok BLOCKSIZE WF_SIZE l"
    and cover: "dim_N a \<le> hipGridDim_y l * WF_SIZE"
    and valid: "csr_valid (dim_K a) (dim_M a) a"
    and ld: "ld_ok (order a) (ldc a) (dim_M a) (dim_N a)"
    and i: "0 \<le> i" "i < dim_M a" and j: "0 \<le> j" "j < dim_N a"
    and sh: "\<And>t r. hipBlockIdx_y t = j div WF_SIZE \<Longrightarrow> shared t r (j mod WF_SIZE) = bval r"
  shows "hits (C_index a i j)
           (concat (map (\<lambda>t. concat (map (\<lambda>row. row_adds WF_SIZE a (hipBlockIdx_y t) (shared t row)
                                               (thread_lid BLOCKSIZE WF_SIZE t) row)
                                    (thread_rows BLOCKSIZE WF_SIZE l (dim_K a) t)))
              (grid_threads l))) =
         (\<Sum>r\<in>{0..<dim_K a}. \<Sum>e\<in>{row_begin a r..<row_finish a r}. scatter_term a i (bval r) e)"
proof -
  let ?nwf = "hipGridDim_x l * BLOCKSIZE div WF_SIZE"
  let ?x = "C_index a i j"
  let ?jd = "j div WF_SIZE"
  note w = launch_ok_nwf [OF ok]
  let ?S = "\<lambda>g. \<Sum>r\<in>set (strided (g div WF_SIZE) (dim_K a) ?nwf).
               \<Sum>e\<in>set (strided (row_begin a r + g mod WF_SIZE) (row_finish a r) WF_SIZE).
                 scatter_term a i (bval r) e"
  have thread: "hits ?x (concat (map (\<lambda>row. row_adds WF_SIZE a (hipBlockIdx_y t) (shared t row)
                                         (thread_lid BLOCKSIZE WF_SIZE t) row)
                              (thread_rows BLOCKSIZE WF_SIZE l (dim_K a) t))) =
                (if hipBlockIdx_y t = ?jd then ?S (thread_gid BLOCKSIZE t) else 0)"
    if t: "t \<in> set (grid_threads l)" for t
  proof -
    note tw = thread_wave_range [OF ok t]
    have by0: "0 \<le> hipBlockIdx_y t" using t by (simp add: grid_threads_mem)
    have entry: "hits ?x (scatter_adds WF_SIZE a (hipBlockIdx_y t) (shared t r) e) =
                 (if hipBlockIdx_y t = ?jd then scatter_term a i (bval r) e else 0)"
      if r: "r \<in> set (strided (thread_gid BLOCKSIZE t div WF_SIZE) (dim_K a) ?nwf)"
        and e: "e \<in> set (strided (row_begin a r + thread_gid BLOCKSIZE t mod WF_SIZE)
                            (row_finish a r) WF_SIZE)" for r e
    proof -
      have "0 \<le> r" "r < dim_K a" using strided_lower [OF r] tw(1) by simp_all
      moreover have "row_begin a r \<le> e" "e < row_finish a r"
        using strided_lower [OF e] tw(3) by simp_all
      ultimately have c: "0 \<le> col_of a e" "col_of a e < dim_M a"
        using csr_valid_col [OF valid] by blast+
      show ?thesis
        using scatter_hits [OF ld c i j by0 w(1), of "shared t r"] sh [of t r] by simp
    qed
    have "hits ?x (concat (map (\<lambda>row. row_adds WF_SIZE a (hipBlockIdx_y t) (shared t row)
                                   (thread_lid BLOCKSIZE WF_SIZE t) row)
                        (thread_rows BLOCKSIZE WF_SIZE l (dim_K a) t))) =
          (\<Sum>r\<in>set (strided (thread_gid BLOCKSIZE t div WF_SIZE) (dim_K a) ?nwf).
             \<Sum>e\<in>set (strided (row_begin a r + thread_gid BLOCKSIZE t mod WF_SIZE)
                         (row_finish a r) WF_SIZE).
               hits ?x (scatter_adds WF_SIZE a (hipBlockIdx_y t) (shared t r) e))"
      by (simp add: thread_rows_def thread_lid_def thread_gid_def row_adds_def
            hits_concat_map [OF distinct_strided])
    also have "\<dots> = (\<Sum>r\<in>set (strided (thread_gid BLOCKSIZE t div WF_SIZE) (dim_K a) ?nwf).
             \<Sum>e\<in>set (strided (row_begin a r + thread_gid BLOCKSIZE t mod WF_SIZE)
                         (row_finish a r) WF_SIZE).
               if hipBlockIdx_y t = ?jd then scatter_term a i (bval r) e else 0)"
      using entry by (intro sum.cong refl) blast
    finally show ?thesis by simp
  qed
  have jd: "0 \<le> ?jd" "?jd < hipGridDim_y l"
    using w(1) j cover by (simp add: pos_imp_zdiv_nonneg_iff, intro int_div_less) auto
  have "hits ?x (concat (map (\<lambda>t. concat (map (\<lambda>row. row_adds WF_SIZE a (hipBlockIdx_y t) (shared t row)
                                               (thread_lid BLOCKSIZE WF_SIZE t) row)
                                    (thread_rows BLOCKSIZE WF_SIZE l (dim_K a) t)))
              (grid_threads l))) =
        (\<Sum>t\<in>set (grid_threads l). if hipBlockIdx_y t = ?jd then ?S (thread_gid BLOCKSIZE t) else 0)"
    using thread by (simp add: hits_concat_map [OF distinct_grid_threads])
  also have "\<dots> = (\<Sum>g\<in>{0..<hipGridDim_x l * BLOCKSIZE}. ?S g)"
    by (rule threads_sum [OF ok jd])
  also have "\<dots> = (\<Sum>g\<in>{0..<?nwf * WF_SIZE}. ?S g)"
    by (simp add: launch_ok_total [OF ok])
  also have "\<dots> = (\<Sum>q\<in>{0..<?nwf}. \<Sum>lid\<in>{0..<WF_SIZE}.
                      \<Sum>r\<in>set (strided q (dim_K a) ?nwf).
                        \<Sum>e\<in>set (strided (row_begin a r + lid) (row_finish a r) WF_SIZE).
                          scatter_term a i (bval r) e)"
    by (rule wave_lane_sum [OF w(1), where F = "\<lambda>q lid. \<Sum>r\<in>set (strided q (dim_K a) ?nwf).
                        \<Sum>e\<in>set (strided (row_begin a r + lid) (row_finish a r) WF_SIZE).
                          scatter_term a i (bval r) e"])
  also have "\<dots> = (\<Sum>q\<in>{0..<?nwf}. \<Sum>r\<in>set (strided q (dim_K a) ?nwf).
                      \<Sum>lid\<in>{0..<WF_SIZE}.
                        \<Sum>e\<in>set (strided (row_begin a r + lid) (row_finish a r) WF_SIZE).
                          scatter_term a i (bval r) e)"
    by (intro sum.cong refl sum.swap)
  also have "\<dots> = (\<Sum>q\<in>{0..<?nwf}. \<Sum>r\<in>set (strided (0 + q) (dim_K a) ?nwf).
                      \<Sum>e\<in>{row_begin a r..<row_finish a r}. scatter_term a i (bval r) e)"
    by (simp add: strided_partition [OF w(1)])
  also have "\<dots> = (\<Sum>r\<in>{0..<dim_K a}. \<Sum>e\<in>{row_begin a r..<row_finish a r}.
                      scatter_term a i (bval r) e)"
    by (rule strided_partition [OF w(2)])
  finally show ?thesis .
qed

lemma tn_at:
  assumes ok: "launch_ok BLOCKSIZE WF_SIZE l"
    and cover: "dim_N a \<le> hipGridDim_y l * WF_SIZE"
    and valid: "csr_valid (dim_K a) (dim_M a) a"
    and ld: "ld_ok (order a) (ldc a) (dim_M a) (dim_N a)"
    and i: "0 \<le> i" "i < dim_M a" and j: "0 \<le> j" "j < dim_N a"
  shows "apply_adds (concat (map (tn_thread_adds BLOCKSIZE WF_SIZE l a) (grid_threads l))) C
           (C_index a i j) =
         C (C_index a i j) +
         (\<Sum>r\<in>{0..<dim_K a}. \<Sum>e\<in>{row_begin a r..<row_finish a r}.
            scatter_term a i (op_val (trans_B a) (buf_B a (r + j * ldb a))) e)"
proof -
  have "tn_shared_B WF_SIZE a (hipBlockIdx_y t) r (j mod WF_SIZE) =
        op_val (trans_B a) (buf_B a (r + j * ldb a))"
    if "hipBlockIdx_y t = j div WF_SIZE" for t :: thread_id and r
    using that j(2) by (simp add: tn_shared_B_eq)
  then show ?thesis
    unfolding apply_adds_hits tn_thread_adds_def
    by (subst grid_hits [OF ok cover valid ld i j,
          where shared = "\<lambda>t. tn_shared_B WF_SIZE a (hipBlockIdx_y t)"
            and bval = "\<lambda>r. op_val (trans_B a) (buf_B a (r + j * ldb a))"]) simp_all
qed

lemma tt_at:
  assumes ok: "launch_ok BLOCKSIZE WF_SIZE l"
    and cover: "dim_N a \<le> hipGridDim_y l * WF_SIZE"
    and valid: "csr_valid (dim_K a) (dim_M a) a"
    and ld: "ld_ok (order a) (ldc a) (dim_M a) (dim_N a)"
    and i: "0 \<le> i" "i < dim_M a" and j: "0 \<le> j" "j < dim_N a"
  shows "apply_adds (concat (map (tt_thread_adds BLOCKSIZE WF_SIZE l a) (grid_threads l))) C
           (C_index a i j) =
         C (C_index a i j) +
         (\<Sum>r\<in>{0..<dim_K a}. \<Sum>e\<in>{row_begin a r..<row_finish a r}.
            scatter_term a i (op_val (trans_B a) (buf_B a (j + ldb a * r))) e)"
proof -
  have "tt_shared_B WF_SIZE a (hipBlockIdx_y t) r (j mod WF_SIZE) =
        op_val (trans_B a) (buf_B a (j + ldb a * r))"
    if "hipBlockIdx_y t = j div WF_SIZE" for t :: thread_id and r
    using that j(2) by (simp add: tt_shared_B_eq add.commute)
  then show ?thesis
    unfolding apply_adds_hits tt_thread_adds_def
    by (subst grid_hits [OF ok cover valid ld i j,
          where shared = "\<lambda>t. tt_shared_B WF_SIZE a (hipBlockIdx_y t)"
            and bval = "\<lambda>r. op_val (trans_B a) (buf_B a (j + ldb a * r))"]) simp_all
qed

lemma op_val_sum: "op_val m (\<Sum>x\<in>S. f x) = (\<Sum>x\<in>S. op_val m (f x))"
  by (simp add: op_val_def)

lemma transposed_reference:
  assumes "trans_A a \<noteq> rocsparse_operation_none"
  shows "alpha a * (\<Sum>k\<in>{0..<dim_K a}. op_A a i k * f k) =
         (\<Sum>r\<in>{0..<dim_K a}. \<Sum>e\<in>{row_begin a r..<row_finish a r}. scatter_term a i (f r) e)"
proof -
  have "op_A a i k = (\<Sum>e\<in>{row_begin a k..<row_finish a k}.
                        if col_of a e = i then op_val (trans_A a) (csr_val a e) else 0)" for k
    using assms
    by (cases "trans_A a")
      (simp_all add: op_A_def csr_dense_def op_val_def if_distrib [of cnj] cong: if_cong)
  then show ?thesis
    by (simp add: sum_distrib_left sum_distrib_right scatter_term_def
          if_distrib [of "\<lambda>v. v * _"] if_distrib [of "\<lambda>v. _ * v"] mult.assoc cong: if_cong)
qed

lemma scale_at:
  assumes l: "scale_launch l m n" and ld: "ld_ok ord ld m n"
    and i: "0 \<le> i" "i < m" and j: "0 \<le> j" "j < n"
  shows "fold (scale_C l m n b ld ord) (grid_threads l) C (dense_index ord ld i j) =
         C (dense_index ord ld i j) * b"
proof -
  let ?x = "dense_index ord ld i j"
  let ?bx = "hipBlockDim_x l" and ?by = "hipBlockDim_y l"
  have bd: "0 < ?bx" "0 < ?by" "m \<le> hipGridDim_x l * ?bx" "n \<le> hipGridDim_y l * ?by"
    using l by (simp_all add: scale_launch_def)
  let ?t0 = "\<lparr>hipBlockIdx_x = i div ?bx, hipBlockIdx_y = j div ?by,
              hipThreadIdx_x = i mod ?bx, hipThreadIdx_y = j mod ?by\<rparr>"
  have "i div ?bx < hipGridDim_x l" "j div ?by < hipGridDim_y l"
    using bd i j by (auto intro!: int_div_less)
  moreover have "0 \<le> i div ?bx" "0 \<le> j div ?by"
    using bd i j by (simp_all add: pos_imp_zdiv_nonneg_iff)
  ultimately have t0: "?t0 \<in> set (grid_threads l)"
    using bd by (simp add: grid_threads_mem)
  have other: "scale_C l m n b ld ord t C' ?x = C' ?x"
    if t: "t \<in> set (grid_threads l)" and ne: "t \<noteq> ?t0" for t C'
  proof -
    let ?gx = "hipBlockIdx_x t * ?bx + hipThreadIdx_x t"
    let ?gy = "hipBlockIdx_y t * ?by + hipThreadIdx_y t"
    have r: "0 \<le> hipThreadIdx_x t" "hipThreadIdx_x t < ?bx"
      "0 \<le> hipThreadIdx_y t" "hipThreadIdx_y t < ?by"
      using t by (simp_all add: grid_threads_mem)
    have "?x \<noteq> dense_index ord ld ?gx ?gy" if inr: "?gx < m" "?gy < n"
    proof
      assume "?x = dense_index ord ld ?gx ?gy"
      then have e: "i = ?gx" "j = ?gy"
        using dense_index_inj [OF ld i j grid_thread_gidx(1) [OF t] inr(1)
            grid_thread_gidx(2) [OF t] inr(2)] by simp_all
      have "i div ?bx = hipBlockIdx_x t" "i mod ?bx = hipThreadIdx_x t"
        "j div ?by = hipBlockIdx_y t" "j mod ?by = hipThreadIdx_y t"
        using r by (simp_all add: e)
      then have "t = ?t0" by simp
      then show False using ne by simp
    qed
    then show ?thesis by (auto simp: scale_C_def Let_def)
  qed
  have mine: "scale_C l m n b ld ord ?t0 C' ?x = C' ?x * b" for C'
    using i j bd by (simp add: scale_C_def Let_def)
  show ?thesis
    by (rule fold_unique_writer [where U = "scale_C l m n b ld ord" and G = "\<lambda>c. c * b"
          and a = ?x, OF distinct_grid_threads t0 other mine])
qed

section \<open>Scaling followed by atomic accumulation\<close>

lemma B_pattern_cases: "B_by_columns a \<noteq> B_by_rows a"
  by (cases "order a") (auto simp: B_by_columns_def B_by_rows_def)

lemma scaled_tn_reference:
  assumes "tn_launch BLOCKSIZE WF_SIZE l a" and "csr_valid (dim_K a) (dim_M a) a"
    and "ld_ok (order a) (ldc a) (dim_M a) (dim_N a)"
    and "trans_A a \<noteq> rocsparse_operation_none" and "B_by_columns a"
    and "0 \<le> i" "i < dim_M a" "0 \<le> j" "j < dim_N a"
    and "Cs (C_index a i j) = beta a * C (C_index a i j)"
  shows "apply_adds (concat (map (tn_thread_adds BLOCKSIZE WF_SIZE l a) (grid_threads l))) Cs
           (C_index a i j) = csrmm_reference a C i j"
  using assms(1,10)
    tn_at [OF _ _ assms(2,3,6-9), of BLOCKSIZE WF_SIZE l Cs]
    transposed_reference [OF assms(4), of i "\<lambda>k. op_B a k j"]
  by (simp add: tn_launch_def csrmm_reference_def op_B_columns [OF assms(5)])

lemma scaled_tt_reference:
  assumes "tn_launch BLOCKSIZE WF_SIZE l a" and "csr_valid (dim_K a) (dim_M a) a"
    and "ld_ok (order a) (ldc a) (dim_M a) (dim_N a)"
    and "trans_A a \<noteq> rocsparse_operation_none" and "B_by_rows a"
    and "0 \<le> i" "i < dim_M a" "0 \<le> j" "j < dim_N a"
    and "Cs (C_index a i j) = beta a * C (C_index a i j)"
  shows "apply_adds (concat (map (tt_thread_adds BLOCKSIZE WF_SIZE l a) (grid_threads l))) Cs
           (C_index a i j) = csrmm_reference a C i j"
  using assms(1,10)
    tt_at [OF _ _ assms(2,3,6-9), of BLOCKSIZE WF_SIZE l Cs]
    transposed_reference [OF assms(4), of i "\<lambda>k. op_B a k j"]
  by (simp add: tn_launch_def csrmm_reference_def op_B_rows [OF assms(5)])

text \<open>
  Claim C5, as stated, fails: a transposed kernel does not compute the reference on the
  combinations of transpose modes and order that it does not serve. All elements of C are
  10 and \<open>beta = 2\<close>. For the stored rows \<open>(2)\<close> and \<open>(3)\<close> of A, mode transpose, and
  \<open>B = [1, 2, 3, 4]\<close> with \<open>ldb = 2\<close> in row order, the scale kernel followed by tn leaves
  38 in element \<open>(0, 1)\<close> of C, where the reference has 36; in column order the scale
  kernel followed by tt leaves 36, where the reference has 38. For the 2 by 2 matrix A
  with the single entry \<open>A(0, 1) = 1\<close>, mode none, and \<open>B = (5, 7)\<close>, the scale kernel
  followed by tn leaves 20 in element \<open>(0, 0)\<close>, where the reference has 27.
\<close>

theorem scale_then_atomic_off_its_modes:
  "csr_valid (dim_K ex_tt_wide) (dim_M ex_tt_wide) ex_tt_wide \<and>
   result_at (C_index ex_tt_wide 0 1)
     (Option.bind
        (csrmm_scale ex_scale_launch (dim_M ex_tt_wide) (dim_N ex_tt_wide) (beta ex_tt_wide)
           (ldc ex_tt_wide) (order ex_tt_wide) (ten_C, []))
        (csrmmtn 2 2 ex_launch ex_tt_wide)) = Some 38 \<and>
   csrmm_reference ex_tt_wide ten_C 0 1 = 36 \<and>
   csr_valid (dim_K ex_tn_wide) (dim_M ex_tn_wide) ex_tn_wide \<and>
   result_at (C_index ex_tn_wide 0 1)
     (Option.bind
        (csrmm_scale ex_scale_launch (dim_M ex_tn_wide) (dim_N ex_tn_wide) (beta ex_tn_wide)
           (ldc ex_tn_wide) (order ex_tn_wide) (ten_C, []))
        (csrmmtt 2 2 ex_launch ex_tn_wide)) = Some 36 \<and>
   csrmm_reference ex_tn_wide ten_C 0 1 = 38 \<and>
   csr_valid (dim_M ex_tn_none) (dim_K ex_tn_none) ex_tn_none \<and>
   result_at (C_index ex_tn_none 0 0)
     (Option.bind
        (csrmm_scale ex_scale_launch (dim_M ex_tn_none) (dim_N ex_tn_none) (beta ex_tn_none)
           (ldc ex_tn_none) (order ex_tn_none) (ten_C, []))
        (csrmmtn 2 2 ex_launch ex_tn_none)) = Some 20 \<and>
   csrmm_reference ex_tn_none ten_C 0 0 = 27"
  by code_simp

text \<open>
  Claim C5, amended. For a valid stored matrix A (\<open>K\<close> rows, columns below \<open>M\<close>) with a
  transposed mode, the scale kernel on C with \<open>beta\<close> followed by the tn kernel (when
  \<open>op(B)\<close> is stored by columns) or by the tt kernel (when it is stored by rows) returns,
  and every element \<open>(i, j)\<close> of C is then \<open>beta * C_old + alpha * op(A) * op(B)\<close>.
\<close>

theorem scale_then_atomic:
  assumes "scale_launch ls (dim_M a) (dim_N a)" and "tn_launch BLOCKSIZE WF_SIZE l a"
    and "csr_valid (dim_K a) (dim_M a) a"
    and "ld_ok (order a) (ldc a) (dim_M a) (dim_N a)"
    and "trans_A a \<noteq> rocsparse_operation_none"
  shows "(B_by_columns a \<longrightarrow>
            (\<exists>C1 tr1 C' tr'.
               csrmm_scale ls (dim_M a) (dim_N a) (beta a) (ldc a) (order a) (C, tr) = Some (C1, tr1) \<and>
               csrmmtn BLOCKSIZE WF_SIZE l a (C1, tr1) = Some (C', tr') \<and>
               (\<forall>i j. 0 \<le> i \<and> i < dim_M a \<and> 0 \<le> j \<and> j < dim_N a \<longrightarrow>
                  C' (C_index a i j) = csrmm_reference a C i j))) \<and>
         (B_by_rows a \<longrightarrow>
            (\<exists>C1 tr1 C' tr'.
               csrmm_scale ls (dim_M a) (dim_N a) (beta a) (ldc a) (order a) (C, tr) = Some (C1, tr1) \<and>
               csrmmtt BLOCKSIZE WF_SIZE l a (C1, tr1) = Some (C', tr') \<and>
               (\<forall>i j. 0 \<le> i \<and> i < dim_M a \<and> 0 \<le> j \<and> j < dim_N a \<longrightarrow>
                  C' (C_index a i j) = csrmm_reference a C i j)))"
proof -
  let ?C1 = "fold (scale_C ls (dim_M a) (dim_N a) (beta a) (ldc a) (order a)) (grid_threads ls) C"
  have ok: "launch_ok BLOCKSIZE WF_SIZE l" using assms(2) by (simp add: tn_launch_def)
  have s: "?C1 (C_index a i j) = beta a * C (C_index a i j)"
    if "0 \<le> i" "i < dim_M a" "0 \<le> j" "j < dim_N a" for i j
    using scale_at [OF assms(1,4) that, of "beta a" C] by (simp add: C_index_def)
  show ?thesis
    using s scaled_tn_reference [OF assms(2-5), of _ _ ?C1 C]
      scaled_tt_reference [OF assms(2-5), of _ _ ?C1 C]
    by (simp add: scale_closed tn_closed [OF ok] tt_closed [OF ok])
qed

theorem scale_then_atomic_witness:
  "scale_launch ex_scale_launch (dim_M ex_tn_wide) (dim_N ex_tn_wide) \<and>
   tn_launch 2 2 ex_launch ex_tn_wide \<and>
   csr_valid (dim_K ex_tn_wide) (dim_M ex_tn_wide) ex_tn_wide \<and>
   trans_A ex_tn_wide \<noteq> rocsparse_operation_none \<and>
   B_by_columns ex_tn_wide \<and> B_by_rows ex_tt_wide \<and>
   (\<exists>C1 tr1 C' tr'.
      csrmm_scale ex_scale_launch 1 2 2 1 rocsparse_order_column (\<lambda>x. 10, []) = Some (C1, tr1) \<and>
      csrmmtn 2 2 ex_launch ex_tn_wide (C1, tr1) = Some (C', tr') \<and> C' 1 = 38) \<and>
   (\<exists>C1 tr1 C' tr'.
      csrmm_scale ex_scale_launch 1 2 2 2 rocsparse_order_row (\<lambda>x. 10, []) = Some (C1, tr1) \<and>
      csrmmtt 2 2 ex_launch ex_tt_wide (C1, tr1) = Some (C', tr') \<and> C' 1 = 36)"
proof -
  have f: "dim_M ex_tn_wide = 1" "dim_N ex_tn_wide = 2" "beta ex_tn_wide = 2" "ldc ex_tn_wide = 1"
    "order ex_tn_wide = rocsparse_order_column" "dim_M ex_tt_wide = 1" "dim_N ex_tt_wide = 2"
    "beta ex_tt_wide = 2" "ldc ex_tt_wide = 2" "order ex_tt_wide = rocsparse_order_row"
    "dim_K ex_tt_wide = 2" "dim_K ex_tn_wide = 2"
    by (simp_all add: ex_tn_wide_def ex_tt_wide_def)
  have s: "scale_launch ex_scale_launch 1 2"
    by (simp add: scale_launch_def ex_scale_launch_def)
  have l: "tn_launch 2 2 ex_launch ex_tn_wide" "tn_launch 2 2 ex_launch ex_tt_wide"
    using ex_launch_ok by (simp_all add: tn_launch_def f ex_launch_def)
  have v: "csr_valid 2 1 ex_tn_wide" "csr_valid 2 1 ex_tt_wide"
    "ld_ok rocsparse_order_column 1 1 2" "ld_ok rocsparse_order_row 2 1 2"
    "B_by_columns ex_tn_wide" "B_by_rows ex_tt_wide"
    by code_simp+
  have t: "trans_A ex_tn_wide \<noteq> rocsparse_operation_none"
    "trans_A ex_tt_wide \<noteq> rocsparse_operation_none"
    by (simp_all add: ex_tn_wide_def ex_tt_wide_def)
  have ref: "csrmm_reference ex_tn_wide (\<lambda>x. 10) 0 1 = 38"
    "csrmm_reference ex_tt_wide (\<lambda>x. 10) 0 1 = 36"
    "C_index ex_tn_wide 0 1 = 1" "C_index ex_tt_wide 0 1 = 1"
    by code_simp+
  have n: "\<exists>C1 tr1 C' tr'.
      csrmm_scale ex_scale_launch 1 2 2 1 rocsparse_order_column (\<lambda>x. 10, []) = Some (C1, tr1) \<and>
      csrmmtn 2 2 ex_launch ex_tn_wide (C1, tr1) = Some (C', tr') \<and> C' 1 = 38"
  proof -
    obtain C1 tr1 C' tr' where
      a: "csrmm_scale ex_scale_launch 1 2 2 1 rocsparse_order_column (\<lambda>x. 10, []) = Some (C1, tr1)"
        "csrmmtn 2 2 ex_launch ex_tn_wide (C1, tr1) = Some (C', tr')"
        "\<forall>i j. 0 \<le> i \<and> i < 1 \<and> 0 \<le> j \<and> j < 2 \<longrightarrow>
           C' (C_index ex_tn_wide i j) = csrmm_reference ex_tn_wide (\<lambda>x. 10) i j"
      using scale_then_atomic [where a = ex_tn_wide and ls = ex_scale_launch and l = ex_launch
          and BLOCKSIZE = 2 and WF_SIZE = 2 and C = "\<lambda>x. 10" and tr = "[]"]
        s l(1) v(1,3,5) t(1)
      by (auto simp: f)
    have "C' 1 = 38" using a(3) [rule_format, of 0 1] ref(1,3) by simp
    then show ?thesis using a(1,2) by blast
  qed
  have r: "\<exists>C1 tr1 C' tr'.
      csrmm_scale ex_scale_launch 1 2 2 2 rocsparse_order_row (\<lambda>x. 10, []) = Some (C1, tr1) \<and>
      csrmmtt 2 2 ex_launch ex_tt_wide (C1, tr1) = Some (C', tr') \<and> C' 1 = 36"
  proof -
    obtain C1 tr1 C' tr' where
      a: "csrmm_scale ex_scale_launch 1 2 2 2 rocsparse_order_row (\<lambda>x. 10, []) = Some (C1, tr1)"
        "csrmmtt 2 2 ex_launch ex_tt_wide (C1, tr1) = Some (C', tr')"
        "\<forall>i j. 0 \<le> i \<and> i < 1 \<and> 0 \<le> j \<and> j < 2 \<longrightarrow>
           C' (C_index ex_tt_wide i j) = csrmm_reference ex_tt_wide (\<lambda>x. 10) i j"
      using scale_then_atomic [where a = ex_tt_wide and ls = ex_scale_launch and l = ex_launch
          and BLOCKSIZE = 2 and WF_SIZE = 2 and C = "\<lambda>x. 10" and tr = "[]"]
        s l(2) v(2,4,6) t(2)
      by (auto simp: f)
    have "C' 1 = 36" using a(3) [rule_format, of 0 1] ref(2,4) by simp
    then show ?thesis using a(1,2) by blast
  qed
  show ?thesis
    using s l(1) v(1,5,6) t(1) n r by (simp add: f)
qed

section \<open>All variants against the reference\<close>

text \<open>
  Claim C1, as stated, fails: a variant does not compute the reference for the transpose
  modes it does not serve. The nn kernel uses the stored rows of A whatever the mode of A
  is. For the 2 by 2 matrix A with the single entry \<open>A(0, 1) = 1\<close>, mode transpose, and
  \<open>B = (5, 7)\<close>, it stores 7 into element \<open>(0, 0)\<close> of C, where the reference has
  \<open>(A\<^sup>T B)(0, 0) = 0\<close>.
\<close>

theorem nn_ignores_transpose_of_A:
  "csr_valid (dim_M ex_nn_transposed) (dim_K ex_nn_transposed) ex_nn_transposed \<and>
   result_at (C_index ex_nn_transposed 0 0)
     (csrmmnn 2 2 ex_launch ex_nn_transposed (zero_C, [])) = Some 7 \<and>
   csrmm_reference ex_nn_transposed zero_C 0 0 = 0"
  by code_simp

lemma store_value_reference:
  "store_value a s (C (C_index a i j)) = alpha a * s + beta a * C (C_index a i j)"
  by (simp add: store_value_def)

text \<open>
  Claim C1, amended. Each variant computes the reference on the combinations of
  transpose modes and order that it serves, for both index bases: nn and nt for mode
  none of A, tn and tt (on a buffer C that holds \<open>beta * C_old\<close>) for the two transposed
  modes of A; nn and tn when \<open>op(B)\<close> is stored by columns, nt and tt when it is stored by
  rows. Every combination is of exactly one of the two storage kinds.
\<close>

theorem kernels_match_reference:
  assumes "ld_ok (order a) (ldc a) (dim_M a) (dim_N a)"
  shows "(trans_A a = rocsparse_operation_none \<and> B_by_columns a \<and>
          csr_valid (dim_M a) (dim_K a) a \<and> nn_launch BLOCKSIZE WF_SIZE l a \<longrightarrow>
            (\<exists>C' tr'. csrmmnn BLOCKSIZE WF_SIZE l a (C, tr) = Some (C', tr') \<and>
               (\<forall>i j. 0 \<le> i \<and> i < dim_M a \<and> 0 \<le> j \<and> j < dim_N a \<longrightarrow>
                  C' (C_index a i j) = csrmm_reference a C i j))) \<and>
         (trans_A a = rocsparse_operation_none \<and> B_by_rows a \<and>
          csr_valid (dim_M a) (dim_K a) a \<and> nt_launch BLOCKSIZE WF_SIZE l a \<longrightarrow>
            (\<exists>C' tr'. csrmmnt BLOCKSIZE WF_SIZE l 0 (dim_N a) a (C, tr) = Some (C', tr') \<and>
               (\<forall>i j. 0 \<le> i \<and> i < dim_M a \<and> 0 \<le> j \<and> j < dim_N a \<longrightarrow>
                  C' (C_index a i j) = csrmm_reference a C i j))) \<and>
         (trans_A a \<noteq> rocsparse_operation_none \<and> B_by_columns a \<and>
          csr_valid (dim_K a) (dim_M a) a \<and> tn_launch BLOCKSIZE WF_SIZE l a \<and>
          (\<forall>i j. 0 \<le> i \<and> i < dim_M a \<and> 0 \<le> j \<and> j < dim_N a \<longrightarrow>
             Cs (C_index a i j) = beta a * C (C_index a i j)) \<longrightarrow>
            (\<exists>C' tr'. csrmmtn BLOCKSIZE WF_SIZE l a (Cs, tr) = Some (C', tr') \<and>
               (\<forall>i j. 0 \<le> i \<and> i < dim_M a \<and> 0 \<le> j \<and> j < dim_N a \<longrightarrow>
                  C' (C_index a i j) = csrmm_reference a C i j))) \<and>
         (trans_A a \<noteq> rocsparse_operation_none \<and> B_by_rows a \<and>
          csr_valid (dim_K a) (dim_M a) a \<and> tn_launch BLOCKSIZE WF_SIZE l a \<and>
          (\<forall>i j. 0 \<le> i \<and> i < dim_M a \<and> 0 \<le> j \<and> j < dim_N a \<longrightarrow>
             Cs (C_index a i j) = beta a * C (C_index a i j)) \<longrightarrow>
            (\<exists>C' tr'. csrmmtt BLOCKSIZE WF_SIZE l a (Cs, tr) = Some (C', tr') \<and>
               (\<forall>i j. 0 \<le> i \<and> i < dim_M a \<and> 0 \<le> j \<and> j < dim_N a \<longrightarrow>
                  C' (C_index a i j) = csrmm_reference a C i j))) \<and>
         B_by_columns a \<noteq> B_by_rows a"
proof (intro conjI impI)
  assume h: "trans_A a = rocsparse_operation_none \<and> B_by_columns a \<and>
             csr_valid (dim_M a) (dim_K a) a \<and> nn_launch BLOCKSIZE WF_SIZE l a"
  then have ok: "launch_ok BLOCKSIZE WF_SIZE l" and cover: "dim_N a \<le> hipGridDim_y l * WF_SIZE"
    by (simp_all add: nn_launch_def)
  have "fold (nn_thread_C BLOCKSIZE WF_SIZE l a) (grid_threads l) C (C_index a i j) =
        csrmm_reference a C i j"
    if "0 \<le> i" "i < dim_M a" "0 \<le> j" "j < dim_N a" for i j
    using nn_at [OF ok assms cover that, of C] h that(1,2)
    by (simp add: C_index_def [symmetric] store_value_reference csrmm_reference_def
          nn_row_sum_reference)
  then show "\<exists>C' tr'. csrmmnn BLOCKSIZE WF_SIZE l a (C, tr) = Some (C', tr') \<and>
               (\<forall>i j. 0 \<le> i \<and> i < dim_M a \<and> 0 \<le> j \<and> j < dim_N a \<longrightarrow>
                  C' (C_index a i j) = csrmm_reference a C i j)"
    by (simp add: nn_closed [OF ok])
next
  assume h: "trans_A a = rocsparse_operation_none \<and> B_by_rows a \<and>
             csr_valid (dim_M a) (dim_K a) a \<and> nt_launch BLOCKSIZE WF_SIZE l a"
  then have ok: "launch_ok BLOCKSIZE WF_SIZE l"
    and cover: "dim_M a \<le> hipGridDim_x l * BLOCKSIZE div WF_SIZE" "hipGridDim_y l = 1"
    by (simp_all add: nt_launch_def)
  have "fold (nt_thread_C BLOCKSIZE WF_SIZE a 0 (dim_N a)) (grid_threads l) C (C_index a i j) =
        csrmm_reference a C i j"
    if "0 \<le> i" "i < dim_M a" "0 \<le> j" "j < dim_N a" for i j
    using nt_at [OF ok assms cover _ that, where C = C] h that(1,2)
    by (simp add: C_index_def [symmetric] store_value_reference csrmm_reference_def
          nt_row_sum_reference)
  then show "\<exists>C' tr'. csrmmnt BLOCKSIZE WF_SIZE l 0 (dim_N a) a (C, tr) = Some (C', tr') \<and>
               (\<forall>i j. 0 \<le> i \<and> i < dim_M a \<and> 0 \<le> j \<and> j < dim_N a \<longrightarrow>
                  C' (C_index a i j) = csrmm_reference a C i j)"
    by (simp add: nt_closed [OF ok])
next
  assume h: "trans_A a \<noteq> rocsparse_operation_none \<and> B_by_columns a \<and>
          csr_valid (dim_K a) (dim_M a) a \<and> tn_launch BLOCKSIZE WF_SIZE l a \<and>
          (\<forall>i j. 0 \<le> i \<and> i < dim_M a \<and> 0 \<le> j \<and> j < dim_N a \<longrightarrow>
             Cs (C_index a i j) = beta a * C (C_index a i j))"
  then have ok: "launch_ok BLOCKSIZE WF_SIZE l" by (simp add: tn_launch_def)
  have "apply_adds (concat (map (tn_thread_adds BLOCKSIZE WF_SIZE l a) (grid_threads l))) Cs
          (C_index a i j) = csrmm_reference a C i j"
    if "0 \<le> i" "i < dim_M a" "0 \<le> j" "j < dim_N a" for i j
    using h that by (intro scaled_tn_reference assms) simp_all
  then show "\<exists>C' tr'. csrmmtn BLOCKSIZE WF_SIZE l a (Cs, tr) = Some (C', tr') \<and>
               (\<forall>i j. 0 \<le> i \<and> i < dim_M a \<and> 0 \<le> j \<and> j < dim_N a \<longrightarrow>
                  C' (C_index a i j) = csrmm_reference a C i j)"
    by (simp add: tn_closed [OF ok])
next
  assume h: "trans_A a \<noteq> rocsparse_operation_none \<and> B_by_rows a \<and>
          csr_valid (dim_K a) (dim_M a) a \<and> tn_launch BLOCKSIZE WF_SIZE l a \<and>
          (\<forall>i j. 0 \<le> i \<and> i < dim_M a \<and> 0 \<le> j \<and> j < dim_N a \<longrightarrow>
             Cs (C_index a i j) = beta a * C (C_index a i j))"
  then have ok: "launch_ok BLOCKSIZE WF_SIZE l" by (simp add: tn_launch_def)
  have "apply_adds (concat (map (tt_thread_adds BLOCKSIZE WF_SIZE l a) (grid_threads l))) Cs
          (C_index a i j) = csrmm_reference a C i j"
    if "0 \<le> i" "i < dim_M a" "0 \<le> j" "j < dim_N a" for i j
    using h that by (intro scaled_tt_reference assms) simp_all
  then show "\<exists>C' tr'. csrmmtt BLOCKSIZE WF_SIZE l a (Cs, tr) = Some (C', tr') \<and>
               (\<forall>i j. 0 \<le> i \<and> i < dim_M a \<and> 0 \<le> j \<and> j < dim_N a \<longrightarrow>
                  C' (C_index a i j) = csrmm_reference a C i j)"
    by (simp add: tt_closed [OF ok])
next
  show "B_by_columns a \<noteq> B_by_rows a" by (rule B_pattern_cases)
qed

theorem kernels_match_reference_witness:
  "(trans_A ex_nn_nt = rocsparse_operation_none \<and> B_by_columns ex_nn_nt \<and>
    csr_valid (dim_M ex_nn_nt) (dim_K ex_nn_nt) ex_nn_nt \<and> nn_launch 2 2 ex_launch ex_nn_nt \<and>
    (\<exists>C' tr'. csrmmnn 2 2 ex_launch ex_nn_nt (\<lambda>x. 0, []) = Some (C', tr') \<and> C' 1 = 3)) \<and>
   (trans_A ex_identity = rocsparse_operation_none \<and> B_by_rows ex_identity \<and>
    csr_valid (dim_M ex_identity) (dim_K ex_identity) ex_identity \<and>
    nt_launch 2 2 ex_launch3 ex_identity \<and>
    (\<exists>C' tr'. csrmmnt 2 2 ex_launch3 0 2 ex_identity (\<lambda>x. 0, []) = Some (C', tr') \<and> C' 5 = 6)) \<and>
   (trans_A ex_tn_wide \<noteq> rocsparse_operation_none \<and> B_by_columns ex_tn_wide \<and>
    csr_valid (dim_K ex_tn_wide) (dim_M ex_tn_wide) ex_tn_wide \<and>
    tn_launch 2 2 ex_launch ex_tn_wide \<and>
    (\<exists>C' tr'. csrmmtn 2 2 ex_launch ex_tn_wide (\<lambda>x. 20, []) = Some (C', tr') \<and> C' 1 = 38)) \<and>
   (trans_A ex_tt_wide \<noteq> rocsparse_operation_none \<and> B_by_rows ex_tt_wide \<and>
    csr_valid (dim_K ex_tt_wide) (dim_M ex_tt_wide) ex_tt_wide \<and>
    tn_launch 2 2 ex_launch ex_tt_wide \<and>
    (\<exists>C' tr'. csrmmtt 2 2 ex_launch ex_tt_wide (\<lambda>x. 20, []) = Some (C', tr') \<and> C' 1 = 36))"
proof -
  have l3: "launch_ok 2 2 ex_launch3"
    by (simp add: launch_ok_def ex_launch3_def is_pow2_2)
  have launches: "nn_launch 2 2 ex_launch ex_nn_nt" "nt_launch 2 2 ex_launch3 ex_identity"
    "tn_launch 2 2 ex_launch ex_tn_wide" "tn_launch 2 2 ex_launch ex_tt_wide"
    using ex_launch_ok l3
    by (simp_all add: nn_launch_def nt_launch_def tn_launch_def ex_launch_def ex_launch3_def
          ex_nn_nt_def ex_identity_def ex_tn_wide_def ex_tt_wide_def)
  have modes: "trans_A ex_nn_nt = rocsparse_operation_none"
    "trans_A ex_identity = rocsparse_operation_none"
    "trans_A ex_tn_wide \<noteq> rocsparse_operation_none"
    "trans_A ex_tt_wide \<noteq> rocsparse_operation_none"
    by (simp_all add: ex_nn_nt_def ex_identity_def ex_tn_wide_def ex_tt_wide_def)
  have valid: "B_by_columns ex_nn_nt" "csr_valid (dim_M ex_nn_nt) (dim_K ex_nn_nt) ex_nn_nt"
    "B_by_rows ex_identity" "csr_valid (dim_M ex_identity) (dim_K ex_identity) ex_identity"
    "B_by_columns ex_tn_wide" "csr_valid (dim_K ex_tn_wide) (dim_M ex_tn_wide) ex_tn_wide"
    "B_by_rows ex_tt_wide" "csr_valid (dim_K ex_tt_wide) (dim_M ex_tt_wide) ex_tt_wide"
    by code_simp+
  have ld: "ld_ok (order ex_nn_nt) (ldc ex_nn_nt) (dim_M ex_nn_nt) (dim_N ex_nn_nt)"
    "ld_ok (order ex_identity) (ldc ex_identity) (dim_M ex_identity) (dim_N ex_identity)"
    "ld_ok (order ex_tn_wide) (ldc ex_tn_wide) (dim_M ex_tn_wide) (dim_N ex_tn_wide)"
    "ld_ok (order ex_tt_wide) (ldc ex_tt_wide) (dim_M ex_tt_wide) (dim_N ex_tt_wide)"
    by code_simp+
  have ref: "C_index ex_nn_nt 0 1 = 1" "csrmm_reference ex_nn_nt (\<lambda>x. 0) 0 1 = 3"
    "C_index ex_identity 2 1 = 5" "csrmm_reference ex_identity (\<lambda>x. 0) 2 1 = 6"
    "C_index ex_tn_wide 0 1 = 1" "csrmm_reference ex_tn_wide (\<lambda>x. 10) 0 1 = 38"
    "C_index ex_tt_wide 0 1 = 1" "csrmm_reference ex_tt_wide (\<lambda>x. 10) 0 1 = 36"
    by code_simp+
  have dims: "dim_M ex_nn_nt = 1" "dim_N ex_nn_nt = 2" "dim_M ex_identity = 3" "dim_N ex_identity = 2"
    "dim_M ex_tn_wide = 1" "dim_N ex_tn_wide = 2" "dim_M ex_tt_wide = 1" "dim_N ex_tt_wide = 2"
    "beta ex_tn_wide = 2" "beta ex_tt_wide = 2"
    by (simp_all add: ex_nn_nt_def ex_identity_def ex_tn_wide_def ex_tt_wide_def)
  have nn: "\<exists>C' tr'. csrmmnn 2 2 ex_launch ex_nn_nt (\<lambda>x. 0, []) = Some (C', tr') \<and> C' 1 = 3"
  proof -
    obtain C' tr' where r: "csrmmnn 2 2 ex_launch ex_nn_nt (\<lambda>x. 0, []) = Some (C', tr')"
      and e: "\<forall>i j. 0 \<le> i \<and> i < dim_M ex_nn_nt \<and> 0 \<le> j \<and> j < dim_N ex_nn_nt \<longrightarrow>
                C' (C_index ex_nn_nt i j) = csrmm_reference ex_nn_nt (\<lambda>x. 0) i j"
      using kernels_match_reference [OF ld(1), where BLOCKSIZE = 2 and WF_SIZE = 2
          and l = ex_launch and C = "\<lambda>x. 0" and tr = "[]",
          THEN conjunct1, THEN mp, OF conjI [OF modes(1) conjI [OF valid(1) conjI [OF valid(2) launches(1)]]]]
      by (elim exE conjE)
    have "C' 1 = 3" using e [rule_format, of 0 1] ref(1,2) by (simp add: dims)
    then show ?thesis using r by blast
  qed
  have nt: "\<exists>C' tr'. csrmmnt 2 2 ex_launch3 0 2 ex_identity (\<lambda>x. 0, []) = Some (C', tr') \<and> C' 5 = 6"
  proof -
    obtain C' tr' where r: "csrmmnt 2 2 ex_launch3 0 (dim_N ex_identity) ex_identity (\<lambda>x. 0, []) =
                              Some (C', tr')"
      and e: "\<forall>i j. 0 \<le> i \<and> i < dim_M ex_identity \<and> 0 \<le> j \<and> j < dim_N ex_identity \<longrightarrow>
                C' (C_index ex_identity i j) = csrmm_reference ex_identity (\<lambda>x. 0) i j"
      using kernels_match_reference [OF ld(2), where BLOCKSIZE = 2 and WF_SIZE = 2
          and l = ex_launch3 and C = "\<lambda>x. 0" and tr = "[]",
          THEN conjunct2, THEN conjunct1, THEN mp,
          OF conjI [OF modes(2) conjI [OF valid(3) conjI [OF valid(4) launches(2)]]]]
      by (elim exE conjE)
    have "C' 5 = 6" using e [rule_format, of 2 1] ref(3,4) by (simp add: dims)
    then show ?thesis using r by (auto simp: dims)
  qed
  have pre: "\<forall>i j. 0 \<le> i \<and> i < dim_M ex_tn_wide \<and> 0 \<le> j \<and> j < dim_N ex_tn_wide \<longrightarrow>
               (\<lambda>x. 20) (C_index ex_tn_wide i j) = beta ex_tn_wide * (\<lambda>x. 10) (C_index ex_tn_wide i j)"
    "\<forall>i j. 0 \<le> i \<and> i < dim_M ex_tt_wide \<and> 0 \<le> j \<and> j < dim_N ex_tt_wide \<longrightarrow>
               (\<lambda>x. 20) (C_index ex_tt_wide i j) = beta ex_tt_wide * (\<lambda>x. 10) (C_index ex_tt_wide i j)"
    by (simp_all add: dims)
  have tn: "\<exists>C' tr'. csrmmtn 2 2 ex_launch ex_tn_wide (\<lambda>x. 20, []) = Some (C', tr') \<and> C' 1 = 38"
  proof -
    obtain C' tr' where r: "csrmmtn 2 2 ex_launch ex_tn_wide (\<lambda>x. 20, []) = Some (C', tr')"
      and e: "\<forall>i j. 0 \<le> i \<and> i < dim_M ex_tn_wide \<and> 0 \<le> j \<and> j < dim_N ex_tn_wide \<longrightarrow>
                C' (C_index ex_tn_wide i j) = csrmm_reference ex_tn_wide (\<lambda>x. 10) i j"
      using kernels_match_reference [OF ld(3), where BLOCKSIZE = 2 and WF_SIZE = 2
          and l = ex_launch and C = "\<lambda>x. 10" and Cs = "\<lambda>x. 20" and tr = "[]",
          THEN conjunct2, THEN conjunct2, THEN conjunct1, THEN mp,
          OF conjI [OF modes(3) conjI [OF valid(5) conjI [OF valid(6) conjI [OF launches(3) pre(1)]]]]]
      by (elim exE conjE)
    have "C' 1 = 38" using e [rule_format, of 0 1] ref(5,6) by (simp add: dims)
    then show ?thesis using r by blast
  qed
  have tt: "\<exists>C' tr'. csrmmtt 2 2 ex_launch ex_tt_wide (\<lambda>x. 20, []) = Some (C', tr') \<and> C' 1 = 36"
  proof -
    obtain C' tr' where r: "csrmmtt 2 2 ex_launch ex_tt_wide (\<lambda>x. 20, []) = Some (C', tr')"
      and e: "\<forall>i j. 0 \<le> i \<and> i < dim_M ex_tt_wide \<and> 0 \<le> j \<and> j < dim_N ex_tt_wide \<longrightarrow>
                C' (C_index ex_tt_wide i j) = csrmm_reference ex_tt_wide (\<lambda>x. 10) i j"
      using kernels_match_reference [OF ld(4), where BLOCKSIZE = 2 and WF_SIZE = 2
          and l = ex_launch and C = "\<lambda>x. 10" and Cs = "\<lambda>x. 20" and tr = "[]",
          THEN conjunct2, THEN conjunct2, THEN conjunct2, THEN conjunct1, THEN mp,
          OF conjI [OF modes(4) conjI [OF valid(7) conjI [OF valid(8) conjI [OF launches(4) pre(2)]]]]]
      by (elim exE conjE)
    have "C' 1 = 36" using e [rule_format, of 0 1] ref(7,8) by (simp add: dims)
    then show ?thesis using r by blast
  qed
  show ?thesis
    using modes valid launches nn nt tn tt by (intro conjI) assumption+
qed

end
